theory Spec2Isabelle
  imports Complex_Main
begin

section \<open>Values of the JavaScript runtime\<close>

text \<open>
  The program is a browser script (\<^verbatim>\<open>script.js\<close>). Its numbers are IEEE doubles. The
  indicator engine is modelled in that arithmetic (rounding, overflow to an infinity,
  underflow: section \<open>IEEE double arithmetic\<close>). In the rest of the program (the time
  stamps of the cache, the price products of \<^verbatim>\<open>localSignal\<close>, the algebraic form of the
  EMA) a finite number is an exact \<^typ>\<open>real\<close>, and the two non-numeric results the code
  can produce from a price series, \<^verbatim>\<open>NaN\<close> and \<^verbatim>\<open>undefined\<close>, are values of their own.
\<close>

datatype jsnum = Num real | NaN | Undefined

text \<open>
  A parsed JSON document: what \<^verbatim>\<open>r.json()\<close> and \<^verbatim>\<open>JSON.parse\<close> return. An object is
  the list of its members; a member is looked up with \<^const>\<open>map_of\<close>.
\<close>

datatype json =
    JNull
  | JBool bool
  | JNum real
  | JStr string
  | JArr "json list"
  | JObj "(string \<times> json) list"

text \<open>
  The exceptions the code raises or lets through: \<^verbatim>\<open>new Error('Offline')\<close>,
  \<^verbatim>\<open>new Error(r.status)\<close>, the rejection of \<^verbatim>\<open>fetch\<close> on the 5 s timeout or on a
  network failure, the \<^verbatim>\<open>SyntaxError\<close> of \<^verbatim>\<open>r.json()\<close>, and the \<^verbatim>\<open>TypeError\<close> of a
  property read on \<^verbatim>\<open>null\<close> or \<^verbatim>\<open>undefined\<close>.
\<close>

datatype jserror =
    ErrOffline
  | ErrStatus nat
  | ErrTimeout
  | ErrNetwork
  | ErrSyntax
  | ErrType

text \<open>
  What the script reads from its environment during one call: \<^verbatim>\<open>navigator.onLine\<close>,
  \<^verbatim>\<open>Date.now()\<close> (epoch milliseconds), the language's conversion of a string, an array or
  an object to a number (\<^verbatim>\<open>ToNumber\<close>, which the script never defines: it is a parameter,
  and every theorem holds whatever it returns), and \<^verbatim>\<open>Number.prototype.toFixed(1)\<close>.
\<close>

record runtime =
  onLine :: bool
  now :: int
  toNumber :: "json \<Rightarrow> jserror + jsnum"
  toFixed1 :: "real \<Rightarrow> string"

text \<open>JavaScript truthiness of a JSON value, as tested by \<^verbatim>\<open>if (c)\<close>.\<close>

fun truthy :: "json \<Rightarrow> bool" where
  "truthy JNull = False"
| "truthy (JBool b) = b"
| "truthy (JNum n) = (n \<noteq> 0)"
| "truthy (JStr s) = (s \<noteq> [])"
| "truthy (JArr xs) = True"
| "truthy (JObj ms) = True"

text \<open>
  \<^verbatim>\<open>x.t\<close> and \<^verbatim>\<open>x.prices\<close> for a parsed JSON value \<open>x\<close>: a \<^verbatim>\<open>TypeError\<close> on \<^verbatim>\<open>null\<close>, the
  member of an object, and \<^verbatim>\<open>undefined\<close> (here \<^const>\<open>None\<close>) otherwise: no number,
  boolean, string or array has a property of either name.
\<close>

fun property :: "json \<Rightarrow> string \<Rightarrow> jserror + json option" where
  "property JNull name = Inl ErrType"
| "property (JObj ms) name = Inr (map_of ms name)"
| "property v name = Inr None"

text \<open>
  The numeric value of an operand of \<^verbatim>\<open>-\<close> or \<^verbatim>\<open>>\<close>: \<^verbatim>\<open>undefined\<close> is \<^verbatim>\<open>NaN\<close>,
  \<^verbatim>\<open>null\<close> is 0, a boolean is 0 or 1, a number is itself; the rest is the runtime's.
\<close>

fun operand :: "runtime \<Rightarrow> json option \<Rightarrow> jserror + jsnum" where
  "operand rt None = Inr NaN"
| "operand rt (Some JNull) = Inr (Num 0)"
| "operand rt (Some (JBool b)) = Inr (Num (if b then 1 else 0))"
| "operand rt (Some (JNum n)) = Inr (Num n)"
| "operand rt (Some v) = toNumber rt v"

text \<open>\<^verbatim>\<open>a > b\<close> on numbers: false as soon as a side is \<^verbatim>\<open>NaN\<close>.\<close>

fun js_gt :: "jsnum \<Rightarrow> jsnum \<Rightarrow> bool" where
  "js_gt (Num a) (Num b) = (a > b)"
| "js_gt a b = False"

fun js_lt :: "jsnum \<Rightarrow> jsnum \<Rightarrow> bool" where
  "js_lt (Num a) (Num b) = (a < b)"
| "js_lt a b = False"

text \<open>\<^verbatim>\<open>a - b\<close>, \<^verbatim>\<open>a + b\<close>, \<^verbatim>\<open>a * b\<close> on numbers; \<^verbatim>\<open>undefined\<close> converts to \<^verbatim>\<open>NaN\<close>.\<close>

fun js_sub :: "jsnum \<Rightarrow> jsnum \<Rightarrow> jsnum" where
  "js_sub (Num a) (Num b) = Num (a - b)"
| "js_sub a b = NaN"

fun js_add :: "jsnum \<Rightarrow> jsnum \<Rightarrow> jsnum" where
  "js_add (Num a) (Num b) = Num (a + b)"
| "js_add a b = NaN"

fun js_mul :: "jsnum \<Rightarrow> jsnum \<Rightarrow> jsnum" where
  "js_mul (Num a) (Num b) = Num (a * b)"
| "js_mul a b = NaN"


section \<open>IEEE double arithmetic\<close>

text \<open>
  The numbers of the language are the IEEE 754 binary64 values: 53 bits of precision,
  exponents from \<open>-1022\<close> to \<open>1023\<close>, subnormal numbers below \<open>2\<^sup>-\<^sup>1\<^sup>0\<^sup>2\<^sup>2\<close>, two infinities and
  \<^verbatim>\<open>NaN\<close>; every operation returns the exact result rounded to the nearest double, ties
  to the even mantissa.

  \<open>expo x\<close> is the exponent of the binade that holds \<open>x\<close> (\<open>-1022\<close> in the subnormal
  range and at 0), and \<open>ulp x\<close> the distance between two neighbouring doubles of that
  binade.
\<close>

definition expo :: "real \<Rightarrow> int" where
  "expo x = (if x = 0 then - 1022 else max \<lfloor>log 2 \<bar>x\<bar>\<rfloor> (- 1022))"

definition ulp :: "real \<Rightarrow> real" where
  "ulp x = 2 powr real_of_int (expo x - 52)"

text \<open>The nearest integer, a tie going to the even one.\<close>

definition round_half_even :: "real \<Rightarrow> int" where
  "round_half_even y =
     (if y - of_int \<lfloor>y\<rfloor> < 1 / 2 then \<lfloor>y\<rfloor>
      else if y - of_int \<lfloor>y\<rfloor> > 1 / 2 then \<lfloor>y\<rfloor> + 1
      else if even \<lfloor>y\<rfloor> then \<lfloor>y\<rfloor> else \<lfloor>y\<rfloor> + 1)"

text \<open>
  The rounding of a real to the grid of the doubles of its binade. The exponent is not
  bounded above here; \<open>fl\<close> below adds the overflow.
\<close>

definition rnd :: "real \<Rightarrow> real" where
  "rnd x = of_int (round_half_even (x / ulp x)) * ulp x"

text \<open>
  A double: a finite number, given by its real value, an infinity or \<^verbatim>\<open>NaN\<close>. The sign
  of a zero is not represented: it shows only in a division by zero, and the only zero
  divisor of the modelled code is the literal \<open>period = 0\<close>, a positive zero.
\<close>

datatype double = Fin real | PosInf | NegInf | NotANumber

text \<open>
  \<^verbatim>\<open>Number.MAX_VALUE\<close> is \<open>(2\<^sup>5\<^sup>3 - 1) \<sqdot> 2\<^sup>9\<^sup>7\<^sup>1\<close>. A real rounds to an infinity from
  \<open>OVERFLOW\<close> on, the midpoint between \<^verbatim>\<open>MAX_VALUE\<close> and \<open>2\<^sup>1\<^sup>0\<^sup>2\<^sup>4\<close> (the tie goes to the even
  mantissa, which is the one of \<open>2\<^sup>1\<^sup>0\<^sup>2\<^sup>4\<close>).
\<close>

definition OVERFLOW :: real where
  "OVERFLOW = 2 ^ 1024 - 2 ^ 970"

definition MAX_VALUE :: real where
  "MAX_VALUE = 2 ^ 1024 - 2 ^ 971"

text \<open>The double that an operation returns for the exact result \<open>x\<close>.\<close>

definition fl :: "real \<Rightarrow> double" where
  "fl x = (if OVERFLOW \<le> x then PosInf else if x \<le> - OVERFLOW then NegInf else Fin (rnd x))"

text \<open>
  Unary minus, \<^verbatim>\<open>Math.abs\<close>, \<^verbatim>\<open>+\<close>, \<^verbatim>\<open>-\<close>, \<^verbatim>\<open>*\<close> and \<^verbatim>\<open>/\<close> on doubles, with the IEEE rules
  for the infinities and \<^verbatim>\<open>NaN\<close>.
\<close>

fun d_neg :: "double \<Rightarrow> double" where
  "d_neg (Fin a) = Fin (- a)"
| "d_neg PosInf = NegInf"
| "d_neg NegInf = PosInf"
| "d_neg NotANumber = NotANumber"

fun d_abs :: "double \<Rightarrow> double" where
  "d_abs (Fin a) = Fin \<bar>a\<bar>"
| "d_abs PosInf = PosInf"
| "d_abs NegInf = PosInf"
| "d_abs NotANumber = NotANumber"

fun d_add :: "double \<Rightarrow> double \<Rightarrow> double" where
  "d_add (Fin a) (Fin b) = fl (a + b)"
| "d_add NotANumber b = NotANumber"
| "d_add a NotANumber = NotANumber"
| "d_add PosInf NegInf = NotANumber"
| "d_add NegInf PosInf = NotANumber"
| "d_add PosInf b = PosInf"
| "d_add a PosInf = PosInf"
| "d_add NegInf b = NegInf"
| "d_add a NegInf = NegInf"

definition d_sub :: "double \<Rightarrow> double \<Rightarrow> double" where
  "d_sub a b = d_add a (d_neg b)"

fun d_mul :: "double \<Rightarrow> double \<Rightarrow> double" where
  "d_mul (Fin a) (Fin b) = fl (a * b)"
| "d_mul NotANumber b = NotANumber"
| "d_mul a NotANumber = NotANumber"
| "d_mul (Fin a) PosInf = (if a = 0 then NotANumber else if 0 < a then PosInf else NegInf)"
| "d_mul (Fin a) NegInf = (if a = 0 then NotANumber else if 0 < a then NegInf else PosInf)"
| "d_mul PosInf (Fin b) = (if b = 0 then NotANumber else if 0 < b then PosInf else NegInf)"
| "d_mul NegInf (Fin b) = (if b = 0 then NotANumber else if 0 < b then NegInf else PosInf)"
| "d_mul PosInf PosInf = PosInf"
| "d_mul NegInf NegInf = PosInf"
| "d_mul PosInf NegInf = NegInf"
| "d_mul NegInf PosInf = NegInf"

fun d_div :: "double \<Rightarrow> double \<Rightarrow> double" where
  "d_div (Fin a) (Fin b) =
     (if b = 0 then (if a = 0 then NotANumber else if 0 < a then PosInf else NegInf)
      else fl (a / b))"
| "d_div NotANumber b = NotANumber"
| "d_div a NotANumber = NotANumber"
| "d_div (Fin a) PosInf = Fin 0"
| "d_div (Fin a) NegInf = Fin 0"
| "d_div PosInf (Fin b) = (if 0 \<le> b then PosInf else NegInf)"
| "d_div NegInf (Fin b) = (if 0 \<le> b then NegInf else PosInf)"
| "d_div a b = NotANumber"

text \<open>
  \<^verbatim>\<open>Math.sqrt\<close>, correctly rounded as the IEEE operation is, and \<^verbatim>\<open>Math.pow(x, 2)\<close>,
  taken as the rounded product \<open>x \<sqdot> x\<close>. The theorems on the order of the Bollinger
  bands use no more of the square than that it is not negative.
\<close>

fun d_sqrt :: "double \<Rightarrow> double" where
  "d_sqrt (Fin a) = (if a < 0 then NotANumber else Fin (rnd (sqrt a)))"
| "d_sqrt PosInf = PosInf"
| "d_sqrt NegInf = NotANumber"
| "d_sqrt NotANumber = NotANumber"

definition d_pow2 :: "double \<Rightarrow> double" where
  "d_pow2 x = d_mul x x"

text \<open>
  \<^verbatim>\<open>a > b\<close>, \<^verbatim>\<open>a === b\<close> and \<^verbatim>\<open>a >= b\<close> on doubles: false as soon as a side is \<^verbatim>\<open>NaN\<close>.
\<close>

fun d_gt :: "double \<Rightarrow> double \<Rightarrow> bool" where
  "d_gt (Fin a) (Fin b) = (b < a)"
| "d_gt NotANumber b = False"
| "d_gt a NotANumber = False"
| "d_gt a PosInf = False"
| "d_gt NegInf b = False"
| "d_gt PosInf b = True"
| "d_gt a NegInf = True"

fun d_eq :: "double \<Rightarrow> double \<Rightarrow> bool" where
  "d_eq (Fin a) (Fin b) = (a = b)"
| "d_eq PosInf PosInf = True"
| "d_eq NegInf NegInf = True"
| "d_eq a b = False"

definition d_ge :: "double \<Rightarrow> double \<Rightarrow> bool" where
  "d_ge a b = (d_gt a b \<or> d_eq a b)"

text \<open>
  A double as a \<^typ>\<open>jsnum\<close>, for the results that the decision fusion reads: the RSI
  and the histogram. Neither is ever an infinity (lemmas \<open>rsi_quotient\<close> and
  \<open>histogram_cases\<close>), so the conversion loses nothing there.
\<close>

fun number :: "double \<Rightarrow> jsnum" where
  "number (Fin r) = Num r"
| "number d = NaN"

text \<open>
  \<^verbatim>\<open>xs[i]\<close> on an array of doubles, \<^verbatim>\<open>undefined\<close> (here \<^const>\<open>None\<close>) outside
  \<open>0 \<le> i < xs.length\<close>, and the numeric value of such an element as an operand:
  \<^verbatim>\<open>undefined\<close> is \<^verbatim>\<open>NaN\<close>.
\<close>

definition d_index :: "double list \<Rightarrow> int \<Rightarrow> double option" where
  "d_index xs i = (if 0 \<le> i \<and> i < int (length xs) then Some (xs ! nat i) else None)"

definition to_double :: "double option \<Rightarrow> double" where
  "to_double v = (case v of Some d \<Rightarrow> d | None \<Rightarrow> NotANumber)"

text \<open>
  Two classes of doubles that the proofs follow through the code: the non-negative
  ones (a number between 0 and \<^verbatim>\<open>MAX_VALUE\<close>, or \<open>+\<close>\<^verbatim>\<open>Infinity\<close>), and the values that an
  operation can return (a finite one is a point of the grid, within the range).
\<close>

fun nn :: "double \<Rightarrow> bool" where
  "nn (Fin a) = (0 \<le> a \<and> a \<le> MAX_VALUE)"
| "nn PosInf = True"
| "nn d = False"

fun exact :: "double \<Rightarrow> bool" where
  "exact (Fin x) = (rnd x = x \<and> \<bar>x\<bar> < OVERFLOW)"
| "exact d = True"

section \<open>The TTL cache (\<^verbatim>\<open>CONFIG.CACHE_TTL\<close>, \<^verbatim>\<open>cache.get\<close>, \<^verbatim>\<open>cache.set\<close>)\<close>

definition CACHE_TTL :: real where
  "CACHE_TTL = 60000"

text \<open>
  \<^verbatim>\<open>localStorage\<close> maps a key to an item. An item is written as \<^verbatim>\<open>JSON.stringify(v)\<close>
  and read back with \<^verbatim>\<open>JSON.parse\<close>; the model keeps the JSON value itself, which is what
  the parse of the written text returns, and a missing item (\<^verbatim>\<open>getItem\<close> returns
  \<^verbatim>\<open>null\<close>) is \<^const>\<open>None\<close>. A written text is never empty, so \<^verbatim>\<open>!data\<close> is the test
  for a missing item. \<^verbatim>\<open>setItem\<close> is taken to succeed (no quota error).
\<close>

type_synonym storage = "string \<rightharpoonup> json"

definition data_key :: "string \<Rightarrow> string" where
  "data_key k = ''cache_'' @ k"

definition meta_key :: "string \<Rightarrow> string" where
  "meta_key k = ''cache_'' @ k @ ''_meta''"

text \<open>\<^verbatim>\<open>Date.now() - JSON.parse(meta).t > CONFIG.CACHE_TTL\<close>\<close>

definition expired :: "runtime \<Rightarrow> json \<Rightarrow> jserror + bool" where
  "expired rt meta =
     (case property meta ''t'' of
        Inl e \<Rightarrow> Inl e
      | Inr t \<Rightarrow>
          (case operand rt t of
             Inl e \<Rightarrow> Inl e
           | Inr n \<Rightarrow> Inr (js_gt (js_sub (Num (of_int (now rt))) n) (Num CACHE_TTL))))"

text \<open>\<^verbatim>\<open>cache.get(k)\<close>: the value, or \<^verbatim>\<open>null\<close> for a missing or an expired entry.\<close>

definition cache_get :: "runtime \<Rightarrow> storage \<Rightarrow> string \<Rightarrow> jserror + json" where
  "cache_get rt ls k =
     (case ls (data_key k) of
        None \<Rightarrow> Inr JNull
      | Some data \<Rightarrow>
          (case ls (meta_key k) of
             None \<Rightarrow> Inr JNull
           | Some meta \<Rightarrow>
               (case expired rt meta of
                  Inl e \<Rightarrow> Inl e
                | Inr old \<Rightarrow> Inr (if old then JNull else data))))"

text \<open>\<^verbatim>\<open>cache.set(k, v)\<close>: the data item, then the meta item \<^verbatim>\<open>{ t: Date.now() }\<close>.\<close>

definition cache_set :: "runtime \<Rightarrow> storage \<Rightarrow> string \<Rightarrow> json \<Rightarrow> storage" where
  "cache_set rt ls k v =
     (ls(data_key k \<mapsto> v))(meta_key k \<mapsto> JObj [(''t'', JNum (of_int (now rt)))])"

section \<open>The state of the application\<close>

text \<open>
  A signal as \<^verbatim>\<open>localSignal\<close> builds it. The decision is one of the texts \<^verbatim>\<open>Buy\<close>,
  \<^verbatim>\<open>Sell\<close>, \<^verbatim>\<open>Hold\<close>.
\<close>

datatype decision = Buy | Sell | Hold

record signal =
  decision :: decision
  confidence :: real
  entry_price :: real
  stoploss :: real
  take_profit :: real
  explanation :: string

text \<open>
  The signal \<^verbatim>\<open>generateSignal\<close> handles is either the object parsed from the advisory's
  reply or the object built by \<^verbatim>\<open>localSignal\<close>.
\<close>

datatype any_signal = Advisory "(string \<times> json) list" | Local signal

text \<open>
  The second argument of \<^verbatim>\<open>toast(msg, duration = 2500)\<close>, which it hands to
  \<^verbatim>\<open>setTimeout\<close>: a number of milliseconds, or the text that a call passes in its place.
\<close>

datatype delay = Ms nat | Str string

text \<open>
  The mutable state the modelled functions touch: \<^verbatim>\<open>localStorage\<close>, the
  \<^verbatim>\<open>STATE.signals\<close> map filled by \<^verbatim>\<open>generateSignal\<close> (a signal with the coin's symbol,
  under the coin's id), and three logs of the effects on the page: the calls of
  \<^verbatim>\<open>toast\<close>, the number of calls of \<^verbatim>\<open>console.warn\<close> and the number of calls of
  \<^verbatim>\<open>playAlert\<close>.
\<close>

record app =
  localStorage :: storage
  signals :: "string \<rightharpoonup> any_signal \<times> string"
  toasts :: "(string \<times> delay) list"
  warnings :: nat
  alerts :: nat

text \<open>\<^verbatim>\<open>toast(msg, duration)\<close> writes the page; the model logs the call.\<close>

definition toast :: "string \<Rightarrow> delay \<Rightarrow> app \<Rightarrow> app" where
  "toast msg duration s = s\<lparr>toasts := toasts s @ [(msg, duration)]\<rparr>"

section \<open>Fetch with cache (\<^verbatim>\<open>fetchAPI\<close>)\<close>

text \<open>
  The outcome of \<^verbatim>\<open>fetch(url, { signal: AbortSignal.timeout(5000) })\<close> followed by
  \<^verbatim>\<open>r.json()\<close>: the promise rejects (timeout, network failure), or a response arrives
  with its status and a body that parses as JSON (\<^const>\<open>Some\<close>) or does not.
\<close>

datatype net = Rejected jserror | Response nat "json option"

text \<open>The \<^verbatim>\<open>try\<close> block of \<^verbatim>\<open>fetchAPI\<close> up to \<^verbatim>\<open>await r.json()\<close>; \<^verbatim>\<open>r.ok\<close> is a 2xx status.\<close>

fun attempt :: "net \<Rightarrow> jserror + json" where
  "attempt (Rejected e) = Inl e"
| "attempt (Response status body) =
     (if \<not> (200 \<le> status \<and> status \<le> 299) then Inl (ErrStatus status)
      else (case body of None \<Rightarrow> Inl ErrSyntax | Some d \<Rightarrow> Inr d))"

text \<open>
  The fallback both failure paths share: \<^verbatim>\<open>const c = cache.get(name); if (c) {
  toast(msg, 'warning'); return c; } throw e;\<close>. An exception of \<^verbatim>\<open>cache.get\<close> itself
  escapes.
\<close>

definition fallback :: "runtime \<Rightarrow> string \<Rightarrow> string \<Rightarrow> jserror \<Rightarrow> app \<Rightarrow> (jserror + json) \<times> app" where
  "fallback rt name msg e s =
     (case cache_get rt (localStorage s) name of
        Inl e' \<Rightarrow> (Inl e', s)
      | Inr c \<Rightarrow> if truthy c then (Inr c, toast msg (Str ''warning'') s) else (Inl e, s))"

definition fetchAPI :: "runtime \<Rightarrow> net \<Rightarrow> string \<Rightarrow> app \<Rightarrow> (jserror + json) \<times> app" where
  "fetchAPI rt response name s =
     (if \<not> onLine rt then fallback rt name ''Using offline data'' ErrOffline s
      else
        (case attempt response of
           Inr d \<Rightarrow> (Inr d, s\<lparr>localStorage := cache_set rt (localStorage s) name d\<rparr>)
         | Inl e \<Rightarrow> fallback rt name ''Using cached data'' e s))"

section \<open>The indicator engine\<close>

text \<open>
  A price series is the list of the real values of its entries, which are finite
  doubles: \<^verbatim>\<open>generateSignal\<close> reads them from a JSON payload, and JSON has no literal for
  \<^verbatim>\<open>NaN\<close> or an infinity (a literal beyond the range of the doubles, which \<^verbatim>\<open>JSON.parse\<close>
  reads as \<^verbatim>\<open>Infinity\<close>, is outside the model).
\<close>

subsection \<open>\<^verbatim>\<open>calculateRSI\<close>\<close>

text \<open>
  The \<^verbatim>\<open>for\<close> loop of \<^verbatim>\<open>calculateRSI\<close>, from index \<open>i\<close> on. It is entered at
  \<open>i = prices.length - period\<close>, which is at least 1 there, so \<open>prices[i - 1]\<close> is
  always an element of the array.
\<close>

function rsi_loop :: "real list \<Rightarrow> nat \<Rightarrow> double \<Rightarrow> double \<Rightarrow> double \<times> double" where
  "rsi_loop prices i gains losses =
     (if i < length prices then
        (if d_gt (d_sub (Fin (prices ! i)) (Fin (prices ! (i - 1)))) (Fin 0)
         then rsi_loop prices (i + 1)
                (d_add gains (d_sub (Fin (prices ! i)) (Fin (prices ! (i - 1))))) losses
         else rsi_loop prices (i + 1) gains
                (d_sub losses (d_sub (Fin (prices ! i)) (Fin (prices ! (i - 1))))))
      else (gains, losses))"
  by pat_completeness auto
termination
  by (relation "measure (\<lambda>(prices, i, gains, losses). length prices - i)") auto

text \<open>
  \<^verbatim>\<open>calculateRSI(prices, period = 14)\<close>. With \<open>period = 0\<close> and a non-empty array the
  loop does not run and \<^verbatim>\<open>0 / 0\<close> is \<^verbatim>\<open>NaN\<close>, which the test \<^verbatim>\<open>avgLoss === 0\<close> lets
  through to the result.
\<close>

definition calculateRSI :: "real list \<Rightarrow> nat \<Rightarrow> jsnum" where
  "calculateRSI prices period =
     (if length prices < period + 1 then Num 50
      else
        (case rsi_loop prices (length prices - period) (Fin 0) (Fin 0) of
           (gains, losses) \<Rightarrow>
             (let avgGain = d_div gains (Fin (real period));
                  avgLoss = d_div losses (Fin (real period))
              in if d_eq avgLoss (Fin 0) then Num 100
                 else (let rs = d_div avgGain avgLoss
                       in number (d_sub (Fin 100) (d_div (Fin 100) (d_add (Fin 1) rs)))))))"

text \<open>
  The reference definition of section 4.3 of the specification, in its words and in
  the arithmetic of the program: the transitions from index \<open>len - period\<close> to
  \<open>len - 1\<close>, the sum of the positive deltas and the sum of the absolute values of the
  negative ones, both taken in the order of the series.
\<close>

definition transitions :: "real list \<Rightarrow> nat \<Rightarrow> double list" where
  "transitions prices period =
     map (\<lambda>i. d_sub (Fin (prices ! i)) (Fin (prices ! (i - 1))))
       [length prices - period ..< length prices]"

definition total_gains :: "double list \<Rightarrow> double" where
  "total_gains ds = foldl d_add (Fin 0) (filter (\<lambda>d. d_gt d (Fin 0)) ds)"

definition total_losses :: "double list \<Rightarrow> double" where
  "total_losses ds = foldl d_add (Fin 0) (map d_abs (filter (\<lambda>d. d_gt (Fin 0) d) ds))"

definition RSI_spec :: "real list \<Rightarrow> nat \<Rightarrow> jsnum" where
  "RSI_spec prices period =
     (if length prices < period + 1 then Num 50
      else
        (let avgGain = d_div (total_gains (transitions prices period)) (Fin (real period));
             avgLoss = d_div (total_losses (transitions prices period)) (Fin (real period))
         in if d_eq avgLoss (Fin 0) then Num 100
            else number (d_sub (Fin 100) (d_div (Fin 100) (d_add (Fin 1) (d_div avgGain avgLoss))))))"

subsection \<open>\<^verbatim>\<open>calculateEMA\<close> and \<^verbatim>\<open>calculateMACD\<close>\<close>

text \<open>
  \<^verbatim>\<open>calculateEMA\<close> in exact real arithmetic: the algebraic content of the loop, rounding
  aside. It is also called on \<^verbatim>\<open>[macd]\<close>, whose element may be \<^verbatim>\<open>NaN\<close>, so its array holds
  \<^typ>\<open>jsnum\<close>s. The loop runs from index \<open>i\<close> on.
\<close>

function ema_loop :: "jsnum list \<Rightarrow> real \<Rightarrow> nat \<Rightarrow> jsnum \<Rightarrow> jsnum" where
  "ema_loop prices multiplier i ema =
     (if i < length prices
      then ema_loop prices multiplier (i + 1)
             (js_add (js_mul (js_sub (prices ! i) ema) (Num multiplier)) ema)
      else ema)"
  by pat_completeness auto
termination
  by (relation "measure (\<lambda>(prices, multiplier, i, ema). length prices - i)") auto




text \<open>
  The same function in the arithmetic of the doubles, as \<^verbatim>\<open>calculateMACD\<close> runs it:
  the loop from index \<open>i\<close> on, \<open>ema\<close> being \<^verbatim>\<open>undefined\<close> only when the array is empty, and
  the function with its multiplier \<^verbatim>\<open>2 / (period + 1)\<close>.
\<close>

function ema_loop_ieee :: "double list \<Rightarrow> double \<Rightarrow> nat \<Rightarrow> double option \<Rightarrow> double option" where
  "ema_loop_ieee prices multiplier i ema =
     (if i < length prices
      then ema_loop_ieee prices multiplier (i + 1)
             (Some (d_add (d_mul (d_sub (prices ! i) (to_double ema)) multiplier) (to_double ema)))
      else ema)"
  by pat_completeness auto
termination
  by (relation "measure (\<lambda>(prices, multiplier, i, ema). length prices - i)") auto

definition calculateEMA_ieee :: "double list \<Rightarrow> nat \<Rightarrow> double option" where
  "calculateEMA_ieee prices period =
     (if length prices < period then d_index prices (int (length prices) - 1)
      else ema_loop_ieee prices (d_div (Fin 2) (d_add (Fin (real period)) (Fin 1))) 1
             (d_index prices 0))"

text \<open>
  \<^verbatim>\<open>calculateMACD(prices)\<close>; the object it returns has the one member \<^verbatim>\<open>histogram\<close>.
\<close>

record macd_result =
  histogram :: jsnum

definition calculateMACD :: "real list \<Rightarrow> macd_result" where
  "calculateMACD prices =
     (let ema12 = calculateEMA_ieee (map Fin prices) 12;
          ema26 = calculateEMA_ieee (map Fin prices) 26;
          macd_line = d_sub (to_double ema12) (to_double ema26);
          signal_line = calculateEMA_ieee [macd_line] 9
      in \<lparr>histogram = number (d_sub macd_line (to_double signal_line))\<rparr>)"

subsection \<open>\<^verbatim>\<open>calculateBollinger\<close>\<close>

record bands =
  upper :: "double option"
  middle :: "double option"
  lower :: "double option"

text \<open>
  \<^verbatim>\<open>calculateBollinger(prices, period = 20)\<close>. \<^verbatim>\<open>prices.slice(-period)\<close> is the last
  \<open>period\<close> elements, and the whole array when \<open>period = 0\<close> (\<^verbatim>\<open>slice(-0)\<close> is \<^verbatim>\<open>slice(0)\<close>);
  \<^verbatim>\<open>reduce((a, b) => a + b)\<close> folds from the first element of the window and throws a
  \<^verbatim>\<open>TypeError\<close> on an empty one (\<^const>\<open>None\<close>, which needs \<open>period = 0\<close> and no price); the
  second \<^verbatim>\<open>reduce\<close> folds from 0.
\<close>

definition calculateBollinger :: "real list \<Rightarrow> nat \<Rightarrow> bands option" where
  "calculateBollinger prices period =
     (if length prices < period
      then Some \<lparr>upper = d_index (map Fin prices) 0,
                 middle = d_index (map Fin prices) 0,
                 lower = d_index (map Fin prices) 0\<rparr>
      else
        (let window = (if period = 0 then prices else drop (length prices - period) prices)
         in if window = [] then None
            else
              (let sma = d_div (foldl d_add (Fin (hd window)) (map Fin (tl window)))
                           (Fin (real period));
                   variance = d_div (foldl (\<lambda>sum p. d_add sum (d_pow2 (d_sub (Fin p) sma)))
                                       (Fin 0) window)
                                (Fin (real period));
                   std = d_sqrt variance
               in Some \<lparr>upper = Some (d_add sma (d_mul (Fin 2) std)),
                         middle = Some sma,
                         lower = Some (d_sub sma (d_mul (Fin 2) std))\<rparr>)))"

text \<open>
  The reference values of section 4.3 of the specification, in the arithmetic of the
  program: the last \<open>n\<close> points of a series, the sum of a list in its order, the simple
  mean and the population standard deviation of a window.
\<close>

definition last_points :: "nat \<Rightarrow> real list \<Rightarrow> real list" where
  "last_points n prices = drop (length prices - n) prices"

fun sum_d :: "double list \<Rightarrow> double" where
  "sum_d [] = Fin 0"
| "sum_d (x # xs) = foldl d_add x xs"

definition mean :: "real list \<Rightarrow> double" where
  "mean w = d_div (sum_d (map Fin w)) (Fin (real (length w)))"

definition stddev :: "real list \<Rightarrow> double" where
  "stddev w =
     d_sqrt (d_div (sum_d (map (\<lambda>p. d_pow2 (d_sub (Fin p) (mean w))) w)) (Fin (real (length w))))"

text \<open>\<^verbatim>\<open>upper >= middle && middle >= lower\<close> on a record of bands.\<close>

definition ordered :: "bands \<Rightarrow> bool" where
  "ordered b =
     (case (upper b, middle b, lower b) of
        (Some u, Some m, Some l) \<Rightarrow> d_ge u m \<and> d_ge m l
      | _ \<Rightarrow> False)"

subsection \<open>\<^verbatim>\<open>calculateIndicators\<close>\<close>

record indicators =
  rsi :: jsnum
  macd :: macd_result
  bollinger_bands :: "bands option"

definition calculateIndicators :: "real list \<Rightarrow> indicators" where
  "calculateIndicators prices =
     \<lparr>rsi = calculateRSI prices 14,
      macd = calculateMACD prices,
      bollinger_bands = calculateBollinger prices 20\<rparr>"

section \<open>Decision fusion\<close>

subsection \<open>\<^verbatim>\<open>localSignal\<close>\<close>

text \<open>The members of a coin of the market snapshot that the modelled code reads.\<close>

record coin =
  coin_id :: string
  symbol :: string
  coin_name :: string
  current_price :: real

text \<open>
  \<^verbatim>\<open>rsi.toFixed(1)\<close>: the runtime's formatting of a number, the text \<^verbatim>\<open>NaN\<close>, and a
  \<^verbatim>\<open>TypeError\<close> on \<^verbatim>\<open>undefined\<close>.
\<close>

fun toFixed :: "runtime \<Rightarrow> jsnum \<Rightarrow> jserror + string" where
  "toFixed rt (Num r) = Inr (toFixed1 rt r)"
| "toFixed rt NaN = Inr ''NaN''"
| "toFixed rt Undefined = Inl ErrType"

text \<open>The \<^verbatim>\<open>if\<close> / \<^verbatim>\<open>else if\<close> of \<^verbatim>\<open>localSignal\<close> on the RSI: the decision and the confidence.\<close>

definition decide :: "jsnum \<Rightarrow> decision \<times> real" where
  "decide r =
     (if js_lt r (Num 30) then (Buy, 75)
      else if js_gt r (Num 70) then (Sell, 75)
      else (Hold, 50))"

definition localSignal :: "runtime \<Rightarrow> coin \<Rightarrow> indicators \<Rightarrow> jserror + signal" where
  "localSignal rt c ind =
     (case decide (rsi ind) of
        (d, conf) \<Rightarrow>
          (case toFixed rt (rsi ind) of
             Inl e \<Rightarrow> Inl e
           | Inr digits \<Rightarrow>
               Inr \<lparr>decision = d,
                    confidence = conf,
                    entry_price = current_price c,
                    stoploss = current_price c * 0.99,
                    take_profit = current_price c * (if d = Buy then 1.02 else 0.98),
                    explanation = ''RSI: '' @ digits\<rparr>))"

subsection \<open>\<^verbatim>\<open>callAI\<close>\<close>

text \<open>
  What the exchange with the inference service amounts to for \<^verbatim>\<open>callAI\<close>: status 429
  (a toast, then \<^verbatim>\<open>null\<close>); any other failure, a reply without a \<^verbatim>\<open>{...}\<close> block or
  with one that does not parse (\<^verbatim>\<open>null\<close>); or the object parsed from the block.
\<close>

datatype ai_reply = RateLimited | Unavailable | Reply "(string \<times> json) list"

definition callAI :: "ai_reply \<Rightarrow> app \<Rightarrow> (string \<times> json) list option \<times> app" where
  "callAI reply s =
     (case reply of
        RateLimited \<Rightarrow> (None, toast ''AI rate limited'' (Ms 2500) s)
      | Unavailable \<Rightarrow> (None, s)
      | Reply obj \<Rightarrow> (Some obj, s))"

subsection \<open>\<^verbatim>\<open>generateSignal\<close>\<close>

text \<open>\<^verbatim>\<open>p[1]\<close> for an entry \<open>p\<close> of \<^verbatim>\<open>data.prices\<close>.\<close>

fun second :: "json \<Rightarrow> jserror + json option" where
  "second JNull = Inl ErrType"
| "second (JArr xs) = Inr (if 1 < length xs then Some (xs ! 1) else None)"
| "second (JStr s) = Inr (if 1 < length s then Some (JStr [s ! 1]) else None)"
| "second (JObj ms) = Inr (map_of ms ''1'')"
| "second v = Inr None"

text \<open>\<^verbatim>\<open>ps.map(p => p[1])\<close>: the first \<^verbatim>\<open>TypeError\<close> ends the map.\<close>

fun seconds :: "json list \<Rightarrow> jserror + json option list" where
  "seconds [] = Inr []"
| "seconds (p # ps) =
     (case second p of
        Inl e \<Rightarrow> Inl e
      | Inr v \<Rightarrow> (case seconds ps of Inl e \<Rightarrow> Inl e | Inr vs \<Rightarrow> Inr (v # vs)))"

text \<open>\<^verbatim>\<open>data.prices.map(p => p[1])\<close>: \<^verbatim>\<open>data.prices\<close> has to be an array.\<close>

definition chart_prices :: "json \<Rightarrow> jserror + json option list" where
  "chart_prices data =
     (case property data ''prices'' of
        Inl e \<Rightarrow> Inl e
      | Inr (Some (JArr ps)) \<Rightarrow> seconds ps
      | Inr other \<Rightarrow> Inl ErrType)"

text \<open>The series when every entry is a number.\<close>

fun numbers :: "json option list \<Rightarrow> real list option" where
  "numbers [] = Some []"
| "numbers (Some (JNum r) # vs) = (case numbers vs of None \<Rightarrow> None | Some rs \<Rightarrow> Some (r # rs))"
| "numbers (v # vs) = None"

text \<open>\<^verbatim>\<open>signal.confidence > 80\<close>, on the advisory's object or on the local signal.\<close>

fun confident :: "runtime \<Rightarrow> any_signal \<Rightarrow> jserror + bool" where
  "confident rt (Local sg) = Inr (confidence sg > 80)"
| "confident rt (Advisory obj) =
     (case operand rt (map_of obj ''confidence'') of
        Inl e \<Rightarrow> Inl e
      | Inr n \<Rightarrow> Inr (js_gt n (Num 80)))"

text \<open>The \<^verbatim>\<open>catch\<close> of \<^verbatim>\<open>generateSignal\<close>: \<^verbatim>\<open>console.warn\<close>.\<close>

definition warn :: "app \<Rightarrow> app" where
  "warn s = s\<lparr>warnings := warnings s + 1\<rparr>"

text \<open>\<^verbatim>\<open>let signal = await callAI(coin, ind); if (!signal) signal = localSignal(coin, ind);\<close>\<close>

definition select_signal :: "runtime \<Rightarrow> coin \<Rightarrow> indicators \<Rightarrow> (string \<times> json) list option \<Rightarrow> jserror + any_signal" where
  "select_signal rt c ind advice =
     (case advice of
        Some obj \<Rightarrow> Inr (Advisory obj)
      | None \<Rightarrow> (case localSignal rt c ind of Inl e \<Rightarrow> Inl e | Inr sg \<Rightarrow> Inr (Local sg)))"

text \<open>
  The end of the \<^verbatim>\<open>try\<close> block: the signal is stored under the coin's id with the
  coin's symbol, \<^verbatim>\<open>renderSignals()\<close> runs (it writes the page; whether it throws is an
  input, \<open>rendered\<close>), and the alert plays when the confidence exceeds 80.
\<close>

definition publish :: "runtime \<Rightarrow> bool \<Rightarrow> coin \<Rightarrow> any_signal \<Rightarrow> app \<Rightarrow> app" where
  "publish rt rendered c sg s =
     (let s' = s\<lparr>signals := (signals s)(coin_id c \<mapsto> (sg, symbol c))\<rparr>
      in if \<not> rendered then warn s'
         else (case confident rt sg of
                 Inl e \<Rightarrow> warn s'
               | Inr loud \<Rightarrow> if loud then s'\<lparr>alerts := alerts s' + 1\<rparr> else s'))"

text \<open>
  \<^verbatim>\<open>calculateIndicators(prices)\<close> in \<^verbatim>\<open>generateSignal\<close>. The indicator engine is modelled on
  numbers. For a series with an entry that is not a number (a string, \<^verbatim>\<open>null\<close>,
  \<^verbatim>\<open>undefined\<close>) the conversions of the language decide what the engine computes or
  throws; that outcome is an input of the model, \<open>loose\<close>, and every theorem holds
  whatever it is.
\<close>

definition indicators_of ::
    "(json option list \<Rightarrow> jserror + indicators) \<Rightarrow> json option list \<Rightarrow> jserror + indicators" where
  "indicators_of loose vs =
     (case numbers vs of
        Some prices \<Rightarrow> Inr (calculateIndicators prices)
      | None \<Rightarrow> loose vs)"

text \<open>
  \<^verbatim>\<open>generateSignal(coin)\<close>; \<^const>\<open>None\<close> for the coin is a falsy argument. The inputs
  are the outcome of the chart request, of the advisory request and of the rendering.
\<close>

definition generateSignal ::
    "runtime \<Rightarrow> (json option list \<Rightarrow> jserror + indicators) \<Rightarrow> net \<Rightarrow> ai_reply \<Rightarrow> bool \<Rightarrow>
     coin option \<Rightarrow> app \<Rightarrow> app" where
  "generateSignal rt loose response reply rendered coin s =
     (case coin of
        None \<Rightarrow> s
      | Some c \<Rightarrow>
          (case fetchAPI rt response (''chart_'' @ coin_id c) s of
             (Inl e, s1) \<Rightarrow> warn s1
           | (Inr data, s1) \<Rightarrow>
               (case chart_prices data of
                  Inl e \<Rightarrow> warn s1
                | Inr vs \<Rightarrow>
                    (case indicators_of loose vs of
                       Inl e \<Rightarrow> warn s1
                     | Inr ind \<Rightarrow>
                         (case callAI reply s1 of
                            (advice, s2) \<Rightarrow>
                              (case select_signal rt c ind advice of
                                 Inl e \<Rightarrow> warn s2
                               | Inr sg \<Rightarrow> publish rt rendered c sg s2))))))"

section \<open>Sample inputs\<close>

text \<open>
  A runtime at a given time, on line or not; an outcome for the series that are not
  numbers; an application state with a given store; a coin.
\<close>

definition runtime_at :: "bool \<Rightarrow> int \<Rightarrow> runtime" where
  "runtime_at on t = \<lparr>onLine = on, now = t, toNumber = (\<lambda>v. Inr NaN), toFixed1 = (\<lambda>r. ''?'')\<rparr>"

definition no_indicators :: "json option list \<Rightarrow> jserror + indicators" where
  "no_indicators vs = Inl ErrType"

definition app_with :: "storage \<Rightarrow> app" where
  "app_with ls = \<lparr>localStorage = ls, signals = Map.empty, toasts = [], warnings = 0, alerts = 0\<rparr>"

definition bitcoin :: coin where
  "bitcoin = \<lparr>coin_id = ''bitcoin'', symbol = ''btc'', coin_name = ''Bitcoin'', current_price = 100\<rparr>"

text \<open>A chart payload with two price points.\<close>

definition sample_chart :: json where
  "sample_chart = JObj [(''prices'', JArr [JArr [JNum 0, JNum 100], JArr [JNum 300000, JNum 101]])]"

text \<open>
  \<open>2\<^sup>1\<^sup>0\<^sup>2\<^sup>3\<close>, a double whose double overflows (\<^verbatim>\<open>MAX_VALUE\<close> is just below \<open>2\<^sup>1\<^sup>0\<^sup>2\<^sup>4\<close>), and
  \<open>2\<^sup>-\<^sup>1\<^sup>0\<^sup>7\<^sup>4\<close>, the least positive double (\<^verbatim>\<open>Number.MIN_VALUE\<close>, \<^verbatim>\<open>5e-324\<close>).
\<close>

definition huge :: real where
  "huge = 2 ^ 1023"

definition tiny :: real where
  "tiny = 1 / 2 ^ 1074"

section \<open>Properties of the cache\<close>

lemma keys_differ: "data_key k \<noteq> meta_key k"
  by (simp add: data_key_def meta_key_def)

text \<open>The meta item of a key is the data item of another key.\<close>

lemma meta_key_alias: "meta_key k = data_key (k @ ''_meta'')"
  by (simp add: data_key_def meta_key_def)

lemma expired_stamp:
  "expired rt (JObj [(''t'', JNum t)]) = Inr (real_of_int (now rt) - t > CACHE_TTL)"
  by (simp add: expired_def)

lemma cache_get_entry:
  "ls (data_key k) = Some v \<Longrightarrow> ls (meta_key k) = Some (JObj [(''t'', JNum t)]) \<Longrightarrow>
   cache_get rt ls k = Inr (if real_of_int (now rt) - t > CACHE_TTL then JNull else v)"
  by (simp add: cache_get_def expired_stamp)

lemma cache_get_missing:
  "ls (data_key k) = None \<or> ls (meta_key k) = None \<Longrightarrow> cache_get rt ls k = Inr JNull"
  by (auto simp: cache_get_def split: option.splits)

lemma cache_set_data: "cache_set rt ls k v (data_key k) = Some v"
  by (simp add: cache_set_def keys_differ)

lemma cache_set_meta:
  "cache_set rt ls k v (meta_key k) = Some (JObj [(''t'', JNum (real_of_int (now rt)))])"
  by (simp add: cache_set_def)

text \<open>
  Claim C4. For every key \<open>k\<close> and value \<open>v\<close>, \<^verbatim>\<open>cache.get(k)\<close> after \<^verbatim>\<open>cache.set(k, v)\<close>
  returns exactly \<open>v\<close> while the time elapsed since the set (the clock of the get, \<open>rt'\<close>,
  minus the clock of the set, \<open>rt\<close>) is within the 60 000 ms TTL, and returns absent
  (\<^verbatim>\<open>null\<close>) once the age exceeds it. \<^verbatim>\<open>get\<close> also returns \<^verbatim>\<open>null\<close> when the store holds no
  entry for \<open>k\<close> (no data item or no meta item): the same \<^verbatim>\<open>null\<close> as for an expired
  entry.
\<close>

theorem cache_roundtrip:
  "cache_get rt' (cache_set rt ls k v) k =
     Inr (if real_of_int (now rt') - real_of_int (now rt) > 60000 then JNull else v)
   \<and> (ls (data_key k) = None \<or> ls (meta_key k) = None \<longrightarrow> cache_get rt' ls k = Inr JNull)"
proof -
  have "cache_get rt' (cache_set rt ls k v) k =
     Inr (if real_of_int (now rt') - real_of_int (now rt) > CACHE_TTL then JNull else v)"
    by (rule cache_get_entry [OF cache_set_data cache_set_meta])
  then show ?thesis
    using cache_get_missing [of ls k rt'] by (simp add: CACHE_TTL_def)
qed

text \<open>
  At the boundary: an entry set at time 0 is returned at time 60 000 and absent at time
  60 001; the empty store has no entry.
\<close>

theorem cache_roundtrip_witness:
  "cache_get (runtime_at True 60000) (cache_set (runtime_at True 0) Map.empty ''fng'' (JNum 7)) ''fng''
     = Inr (JNum 7)
   \<and> cache_get (runtime_at True 60001) (cache_set (runtime_at True 0) Map.empty ''fng'' (JNum 7)) ''fng''
     = Inr JNull
   \<and> cache_get (runtime_at True 5) Map.empty ''fng'' = Inr JNull"
  using cache_roundtrip [of "runtime_at True 60000" "runtime_at True 0" Map.empty "''fng''" "JNum 7"]
    cache_roundtrip [of "runtime_at True 60001" "runtime_at True 0" Map.empty "''fng''" "JNum 7"]
    cache_roundtrip [of "runtime_at True 5" "runtime_at True 0" Map.empty "''fng''" "JNum 7"]
  by (simp add: runtime_at_def)

section \<open>Properties of \<^verbatim>\<open>fetchAPI\<close>\<close>

lemma fallback_entry:
  assumes "localStorage s (data_key name) = Some v"
      and "localStorage s (meta_key name) = Some (JObj [(''t'', JNum t)])"
  shows "fallback rt name msg e s =
     (if real_of_int (now rt) - t \<le> CACHE_TTL \<and> truthy v then (Inr v, toast msg (Str ''warning'') s)
      else (Inl e, s))"
  using assms by (simp add: fallback_def cache_get_entry)

lemma fallback_missing:
  assumes "localStorage s (data_key name) = None \<or> localStorage s (meta_key name) = None"
  shows "fallback rt name msg e s = (Inl e, s)"
  using assms by (simp add: fallback_def cache_get_missing)

lemma fallback_toasts:
  "toasts (snd (fallback rt name msg e s)) =
     (if isl (fst (fallback rt name msg e s)) then toasts s else toasts s @ [(msg, Str ''warning'')])"
  by (simp add: fallback_def toast_def split: sum.splits)

lemma fallback_value:
  "fst (fallback rt name msg e s) = Inr c \<Longrightarrow> cache_get rt (localStorage s) name = Inr c"
  by (auto simp: fallback_def split: sum.splits if_splits)

lemma fallback_storage:
  "localStorage (snd (fallback rt name msg e s)) = localStorage s"
  by (simp add: fallback_def toast_def split: sum.splits)

text \<open>The two paths of \<^verbatim>\<open>fetchAPI\<close>.\<close>

lemma fetchAPI_failure:
  assumes "\<not> onLine rt \<or> attempt response = Inl e"
  shows "fetchAPI rt response name s =
     fallback rt name (if onLine rt then ''Using cached data'' else ''Using offline data'')
       (if onLine rt then e else ErrOffline) s"
  using assms by (auto simp: fetchAPI_def)

lemma fetchAPI_success:
  assumes "onLine rt" and "attempt response = Inr d"
  shows "fetchAPI rt response name s = (Inr d, s\<lparr>localStorage := cache_set rt (localStorage s) name d\<rparr>)"
  using assms by (simp add: fetchAPI_def)

text \<open>
  The network call fails exactly on a rejected request (timeout, network failure), a
  status outside 2xx, or a body that does not parse.
\<close>

lemma attempt_failure:
  "attempt response = Inl e \<longleftrightarrow>
     response = Rejected e
     \<or> (\<exists>status body. response = Response status body \<and> \<not> (200 \<le> status \<and> status \<le> 299) \<and> e = ErrStatus status)
     \<or> (\<exists>status. response = Response status None \<and> 200 \<le> status \<and> status \<le> 299 \<and> e = ErrSyntax)"
  by (cases response) (auto split: option.splits)

text \<open>
  Claim C1, as the specification states it, fails on the code: the fallback reads the
  cache through \<^verbatim>\<open>cache.get\<close>, which applies the TTL. A value stored at time 0 is not
  returned by a fetch at time 60 001, off line or after a status 500: the fetch fails.
\<close>

theorem fetchAPI_stale_counterexample:
  "fst (fetchAPI (runtime_at False 60001) (Rejected ErrNetwork) ''coins''
          (app_with (cache_set (runtime_at True 0) Map.empty ''coins'' (JStr ''v''))))
     = Inl ErrOffline
   \<and> fst (fetchAPI (runtime_at True 60001) (Response 500 None) ''coins''
          (app_with (cache_set (runtime_at True 0) Map.empty ''coins'' (JStr ''v''))))
     = Inl (ErrStatus 500)"
  by (simp add: fetchAPI_def fallback_def cache_get_def cache_set_def expired_def app_with_def
      runtime_at_def data_key_def meta_key_def CACHE_TTL_def)

text \<open>
  Claim C1, amended. For every fetch that cannot use the network (off line, or a
  rejected request, a status outside 2xx or a body that does not parse, with error \<open>e\<close>):
  when the store holds a value \<open>v\<close> for the cache key with the stamp \<open>t\<close> of its
  \<^verbatim>\<open>cache.set\<close>, \<^verbatim>\<open>fetchAPI\<close> returns \<open>v\<close> if the age of the entry is at most 60 000 ms and
  \<open>v\<close> is truthy, and fails otherwise; when the store holds no entry for the key it
  fails. The failure is \<^verbatim>\<open>Error('Offline')\<close> off line and the error of the network call
  otherwise.
\<close>

theorem fetchAPI_fallback:
  assumes "\<not> onLine rt \<or> attempt response = Inl e"
  shows "(localStorage s (data_key name) = Some v
          \<and> localStorage s (meta_key name) = Some (JObj [(''t'', JNum t)]) \<longrightarrow>
            fst (fetchAPI rt response name s) =
              (if real_of_int (now rt) - t \<le> 60000 \<and> truthy v then Inr v
               else Inl (if onLine rt then e else ErrOffline)))
       \<and> (localStorage s (data_key name) = None \<or> localStorage s (meta_key name) = None \<longrightarrow>
            fst (fetchAPI rt response name s) = Inl (if onLine rt then e else ErrOffline))"
  using assms
  by (auto simp: fetchAPI_failure fallback_entry fallback_missing CACHE_TTL_def)

theorem fetchAPI_fallback_witness:
  "fst (fetchAPI (runtime_at False 60000) (Rejected ErrTimeout) ''coins''
          (app_with (cache_set (runtime_at True 0) Map.empty ''coins'' (JStr ''v''))))
     = Inr (JStr ''v'')
   \<and> fst (fetchAPI (runtime_at True 5) (Rejected ErrTimeout) ''coins'' (app_with Map.empty))
     = Inl ErrTimeout"
  using fetchAPI_fallback [of "runtime_at False 60000" "Rejected ErrTimeout" ErrTimeout
      "app_with (cache_set (runtime_at True 0) Map.empty ''coins'' (JStr ''v''))" "''coins''" "JStr ''v''" 0]
    fetchAPI_fallback [of "runtime_at True 5" "Rejected ErrTimeout" ErrTimeout
      "app_with Map.empty" "''coins''" "JStr ''v''" 0]
  by (simp add: runtime_at_def app_with_def cache_set_def data_key_def meta_key_def)

text \<open>
  Claim C5, as the specification states it, fails on the code: \<^verbatim>\<open>fetchAPI\<close> returns the
  cached value itself. A fresh result and an off-line result are the same value for the
  caller.
\<close>

theorem fetchAPI_unflagged_counterexample:
  "fst (fetchAPI (runtime_at True 10) (Response 200 (Some (JStr ''v''))) ''coins'' (app_with Map.empty))
     = Inr (JStr ''v'')
   \<and> fst (fetchAPI (runtime_at False 10) (Rejected ErrNetwork) ''coins''
          (app_with (cache_set (runtime_at True 0) Map.empty ''coins'' (JStr ''v''))))
     = Inr (JStr ''v'')"
  by (simp add: fetchAPI_def fallback_def cache_get_def cache_set_def expired_def app_with_def
      runtime_at_def data_key_def meta_key_def CACHE_TTL_def)

text \<open>
  Claim C5, amended. Whenever \<^verbatim>\<open>fetchAPI\<close> serves a cached value instead of a fresh
  network result, it calls \<^verbatim>\<open>toast\<close> once (with \<^verbatim>\<open>Using offline data\<close> off line and with
  \<^verbatim>\<open>Using cached data\<close> after a failed call) and returns the value \<^verbatim>\<open>cache.get\<close> gave,
  with no flag; on a fresh result and on a failure it does not call \<^verbatim>\<open>toast\<close>.
\<close>

theorem fetchAPI_degraded_toast:
  "toasts (snd (fetchAPI rt response name s)) =
     (if (\<not> onLine rt \<or> isl (attempt response)) \<and> \<not> isl (fst (fetchAPI rt response name s))
      then toasts s @ [(if onLine rt then ''Using cached data'' else ''Using offline data'',
                        Str ''warning'')]
      else toasts s)
   \<and> ((\<not> onLine rt \<or> isl (attempt response)) \<and> fst (fetchAPI rt response name s) = Inr c \<longrightarrow>
        cache_get rt (localStorage s) name = Inr c)"
proof (cases "\<not> onLine rt \<or> isl (attempt response)")
  case True
  then obtain e where "\<not> onLine rt \<or> attempt response = Inl e"
    by (cases "attempt response") auto
  then show ?thesis
    using True fallback_value [of rt name _ _ s c]
    by (simp add: fetchAPI_failure fallback_toasts)
next
  case False
  then obtain d where "onLine rt" and "attempt response = Inr d"
    by (cases "attempt response") auto
  then show ?thesis
    by (simp add: fetchAPI_success)
qed

theorem fetchAPI_degraded_toast_witness:
  "toasts (snd (fetchAPI (runtime_at False 10) (Rejected ErrNetwork) ''coins''
          (app_with (cache_set (runtime_at True 0) Map.empty ''coins'' (JStr ''v'')))))
     = [(''Using offline data'', Str ''warning'')]
   \<and> cache_get (runtime_at False 10)
        (localStorage (app_with (cache_set (runtime_at True 0) Map.empty ''coins'' (JStr ''v'')))) ''coins''
     = Inr (JStr ''v'')"
  using fetchAPI_degraded_toast [of "runtime_at False 10" "Rejected ErrNetwork" "''coins''"
      "app_with (cache_set (runtime_at True 0) Map.empty ''coins'' (JStr ''v''))" "JStr ''v''"]
  by (simp add: fetchAPI_def fallback_def cache_get_def cache_set_def expired_def app_with_def
      runtime_at_def data_key_def meta_key_def CACHE_TTL_def)

text \<open>
  Claim C8. \<^verbatim>\<open>fetchAPI\<close> writes to the cache exactly on its success path: on line, with
  a 2xx response whose body parses to \<open>d\<close>, it returns \<open>d\<close> and the store is the old one
  after \<^verbatim>\<open>cache.set(name, d)\<close>, so the data item of the key is \<open>d\<close> and its stamp is the
  current time; a failed call (off line, rejected request or timeout, status outside
  2xx, body that does not parse) leaves the whole store as it was.
\<close>

theorem fetchAPI_cache_writes:
  "(onLine rt \<and> response = Response status (Some d) \<and> 200 \<le> status \<and> status \<le> 299 \<longrightarrow>
      fetchAPI rt response name s = (Inr d, s\<lparr>localStorage := cache_set rt (localStorage s) name d\<rparr>)
      \<and> cache_set rt (localStorage s) name d (data_key name) = Some d
      \<and> cache_set rt (localStorage s) name d (meta_key name) = Some (JObj [(''t'', JNum (real_of_int (now rt)))]))
   \<and> (\<not> onLine rt \<or> response = Rejected e
        \<or> response = Response status body \<and> (\<not> (200 \<le> status \<and> status \<le> 299) \<or> body = None) \<longrightarrow>
      localStorage (snd (fetchAPI rt response name s)) = localStorage s)"
proof (intro conjI impI)
  assume ok: "onLine rt \<and> response = Response status (Some d) \<and> 200 \<le> status \<and> status \<le> 299"
  then have "attempt response = Inr d"
    by simp
  with ok show "fetchAPI rt response name s
      = (Inr d, s\<lparr>localStorage := cache_set rt (localStorage s) name d\<rparr>)"
    by (simp add: fetchAPI_success del: attempt.simps)
  show "cache_set rt (localStorage s) name d (data_key name) = Some d"
    by (rule cache_set_data)
  show "cache_set rt (localStorage s) name d (meta_key name)
      = Some (JObj [(''t'', JNum (real_of_int (now rt)))])"
    by (rule cache_set_meta)
next
  assume "\<not> onLine rt \<or> response = Rejected e
        \<or> response = Response status body \<and> (\<not> (200 \<le> status \<and> status \<le> 299) \<or> body = None)"
  then have "\<not> onLine rt \<or> isl (attempt response)"
    by (auto split: option.splits)
  then obtain e' where "\<not> onLine rt \<or> attempt response = Inl e'"
    by (cases "attempt response") auto
  then show "localStorage (snd (fetchAPI rt response name s)) = localStorage s"
    using fetchAPI_failure [of rt response e' name s] by (simp add: fallback_storage)
qed

theorem fetchAPI_cache_writes_witness:
  "fetchAPI (runtime_at True 10) (Response 200 (Some (JStr ''v''))) ''coins'' (app_with Map.empty)
     = (Inr (JStr ''v''), app_with (cache_set (runtime_at True 10) Map.empty ''coins'' (JStr ''v'')))
   \<and> localStorage (snd (fetchAPI (runtime_at True 10) (Response 404 (Some (JStr ''v''))) ''coins''
        (app_with Map.empty))) = Map.empty"
  using fetchAPI_cache_writes [of "runtime_at True 10" "Response 200 (Some (JStr ''v''))" 200 "JStr ''v''"
      "''coins''" "app_with Map.empty" ErrNetwork "Some (JStr ''v'')"]
    fetchAPI_cache_writes [of "runtime_at True 10" "Response 404 (Some (JStr ''v''))" 404 "JStr ''v''"
      "''coins''" "app_with Map.empty" ErrNetwork "Some (JStr ''v'')"]
  by (simp add: runtime_at_def app_with_def)

section \<open>Properties of the double arithmetic\<close>

subsection \<open>Rounding to the nearest integer\<close>

lemma rhe_int [simp]: "round_half_even (of_int n) = n"
  by (simp add: round_half_even_def)

lemma rhe_bounds: "\<lfloor>y\<rfloor> \<le> round_half_even y" "round_half_even y \<le> \<lfloor>y\<rfloor> + 1"
  by (simp_all add: round_half_even_def)

lemma rhe_mono:
  assumes "x \<le> y"
  shows "round_half_even x \<le> round_half_even y"
proof (cases "\<lfloor>x\<rfloor> = \<lfloor>y\<rfloor>")
  case True
  with assms show ?thesis
    by (auto simp: round_half_even_def)
next
  case False
  with assms have "\<lfloor>x\<rfloor> + 1 \<le> \<lfloor>y\<rfloor>"
    using floor_mono [of x y] by linarith
  with rhe_bounds(2) [of x] rhe_bounds(1) [of y] show ?thesis
    by linarith
qed

lemma floor_minus_nonint:
  assumes "y \<noteq> of_int \<lfloor>y\<rfloor>"
  shows "\<lfloor>- y\<rfloor> = - \<lfloor>y\<rfloor> - 1"
proof -
  have "of_int \<lfloor>y\<rfloor> < y" "y < of_int \<lfloor>y\<rfloor> + 1"
    using assms by linarith+
  then show ?thesis
    by (intro floor_unique) auto
qed

lemma rhe_minus: "round_half_even (- y) = - round_half_even y"
proof (cases "y = of_int \<lfloor>y\<rfloor>")
  case True
  then have "round_half_even y = \<lfloor>y\<rfloor>" "round_half_even (- y) = - \<lfloor>y\<rfloor>"
    using rhe_int [of "\<lfloor>y\<rfloor>"] rhe_int [of "- \<lfloor>y\<rfloor>"] by simp_all
  then show ?thesis by simp
next
  case False
  have "y - of_int \<lfloor>y\<rfloor> < 1" "0 \<le> y - of_int \<lfloor>y\<rfloor>"
    by linarith+
  then show ?thesis
    unfolding round_half_even_def floor_minus_nonint [OF False] by (auto simp: algebra_simps)
qed

lemma rhe_below_half:
  assumes "y < of_int n + 1 / 2"
  shows "round_half_even y \<le> n"
proof (cases "\<lfloor>y\<rfloor> = n")
  case True
  with assms have "y - of_int \<lfloor>y\<rfloor> < 1 / 2"
    by simp
  then show ?thesis
    using True by (simp add: round_half_even_def)
next
  case False
  from assms have "y < of_int (n + 1)"
    by simp
  then have "\<lfloor>y\<rfloor> < n + 1"
    by (simp only: floor_less_iff)
  with False have "\<lfloor>y\<rfloor> + 1 \<le> n"
    by simp
  with rhe_bounds(2) [of y] show ?thesis
    by linarith
qed


subsection \<open>Exponent and spacing\<close>

lemma ulp_pos [simp]: "0 < ulp x"
  by (simp add: ulp_def)

lemma ulp_nonneg [simp]: "0 \<le> ulp x"
  by (simp add: ulp_def)

lemma ulp_neq0 [simp]: "ulp x \<noteq> 0"
  using ulp_pos [of x] by linarith

lemma ulp_minus [simp]: "ulp (- x) = ulp x"
  by (simp add: ulp_def expo_def)

lemma expo_floor:
  assumes "x \<noteq> 0"
  shows "2 powr real_of_int \<lfloor>log 2 \<bar>x\<bar>\<rfloor> \<le> \<bar>x\<bar>"
    and "\<bar>x\<bar> < 2 powr real_of_int (\<lfloor>log 2 \<bar>x\<bar>\<rfloor> + 1)"
  using assms floor_log_eq_powr_iff [of "\<bar>x\<bar>" 2 "\<lfloor>log 2 \<bar>x\<bar>\<rfloor>"] by simp_all

lemma expo_upper:
  assumes "x \<noteq> 0"
  shows "\<bar>x\<bar> < 2 powr real_of_int (expo x + 1)"
proof -
  have "2 powr real_of_int (\<lfloor>log 2 \<bar>x\<bar>\<rfloor> + 1) \<le> 2 powr real_of_int (expo x + 1)"
    using assms by (simp add: expo_def)
  with expo_floor(2) [OF assms] show ?thesis
    by linarith
qed

lemma expo_lower:
  assumes "x \<noteq> 0" and "- 1022 < expo x"
  shows "2 powr real_of_int (expo x) \<le> \<bar>x\<bar>"
proof -
  from assms have "expo x = \<lfloor>log 2 \<bar>x\<bar>\<rfloor>"
    by (simp add: expo_def max_def split: if_splits)
  with expo_floor(1) [OF assms(1)] show ?thesis
    by simp
qed

lemma expo_ge: "- 1022 \<le> expo x"
  by (simp add: expo_def)

lemma expo_mono:
  assumes "0 < x" and "x \<le> y"
  shows "expo x \<le> expo y"
proof -
  have "log 2 \<bar>x\<bar> \<le> log 2 \<bar>y\<bar>"
    using assms by simp
  then have "\<lfloor>log 2 \<bar>x\<bar>\<rfloor> \<le> \<lfloor>log 2 \<bar>y\<bar>\<rfloor>"
    by (rule floor_mono)
  then show ?thesis
    using assms by (simp add: expo_def)
qed

lemma expo_eqI:
  assumes "2 powr real_of_int e \<le> \<bar>x\<bar>" and "\<bar>x\<bar> < 2 powr real_of_int (e + 1)" and "- 1022 \<le> e"
  shows "expo x = e"
proof -
  have pos: "0 < \<bar>x\<bar>"
    using assms(1) powr_gt_zero [of 2 "real_of_int e"] by linarith
  then have "\<lfloor>log 2 \<bar>x\<bar>\<rfloor> = e"
    using assms(1, 2) floor_log_eq_powr_iff [of "\<bar>x\<bar>" 2 e] by simp
  with assms(3) pos show ?thesis
    by (simp add: expo_def)
qed

lemma expo_subnormal:
  assumes "\<bar>x\<bar> < 2 powr (- 1022)"
  shows "expo x = - 1022"
proof (cases "x = 0")
  case True
  then show ?thesis
    by (simp add: expo_def)
next
  case False
  have "\<lfloor>log 2 \<bar>x\<bar>\<rfloor> < - 1022"
  proof (rule ccontr)
    assume "\<not> \<lfloor>log 2 \<bar>x\<bar>\<rfloor> < - 1022"
    then have "(- 1022 :: int) \<le> \<lfloor>log 2 \<bar>x\<bar>\<rfloor>"
      by linarith
    then have "real_of_int (- 1022) \<le> real_of_int \<lfloor>log 2 \<bar>x\<bar>\<rfloor>"
      by (simp only: of_int_le_iff)
    then have "(2::real) powr real_of_int (- 1022) \<le> 2 powr real_of_int \<lfloor>log 2 \<bar>x\<bar>\<rfloor>"
      by (intro powr_mono) simp_all
    then have "(2::real) powr (- 1022) \<le> 2 powr real_of_int \<lfloor>log 2 \<bar>x\<bar>\<rfloor>"
      by (simp only: of_int_minus of_int_numeral)
    with expo_floor(1) [OF False] assms show False
      by linarith
  qed
  with False show ?thesis
    by (simp add: expo_def)
qed

lemma ulp_scale: "2 powr real_of_int (expo x + 1) = 2 ^ 53 * ulp x"
proof -
  have "real_of_int (expo x + 1) = 53 + real_of_int (expo x - 52)"
    by simp
  then have "2 powr real_of_int (expo x + 1) = 2 powr 53 * ulp x"
    unfolding ulp_def by (metis powr_add)
  moreover have "(2::real) powr 53 = 2 ^ 53"
    using powr_realpow [of 2 53] by simp
  ultimately show ?thesis
    by simp
qed

lemma ulp_scale': "2 powr real_of_int (expo x) = 2 ^ 52 * ulp x"
proof -
  have "real_of_int (expo x) = 52 + real_of_int (expo x - 52)"
    by simp
  then have "2 powr real_of_int (expo x) = 2 powr 52 * ulp x"
    unfolding ulp_def by (metis powr_add)
  moreover have "(2::real) powr 52 = 2 ^ 52"
    using powr_realpow [of 2 52] by simp
  ultimately show ?thesis
    by simp
qed

lemma two_powr_int: "0 \<le> k \<Longrightarrow> (2::real) powr real_of_int k = 2 ^ nat k"
  using powr_realpow [of 2 "nat k"] by simp

lemma two_powr_nat: "(2::real) powr real n = 2 ^ n"
  using powr_realpow [of 2 n] by simp

lemma expo_power2: "expo (2 ^ n) = int n"
proof (rule expo_eqI)
  show "2 powr real_of_int (int n) \<le> \<bar>(2::real) ^ n\<bar>"
    by (simp add: two_powr_nat)
  have "real_of_int (int n + 1) = real (Suc n)"
    by simp
  then have "(2::real) powr real_of_int (int n + 1) = 2 ^ Suc n"
    by (simp only: two_powr_nat)
  then show "\<bar>(2::real) ^ n\<bar> < 2 powr real_of_int (int n + 1)"
    by simp
  show "- 1022 \<le> int n"
    by simp
qed

subsection \<open>The rounding\<close>

text \<open>
  The rounding is odd and monotone; it fixes 0, the powers of two and the integers up
  to \<open>2\<^sup>5\<^sup>3\<close>; it at most doubles a number.
\<close>

lemma rnd_0 [simp]: "rnd 0 = 0"
  using rhe_int [of 0] by (simp add: rnd_def)

lemma rnd_minus: "rnd (- x) = - rnd x"
  by (simp add: rnd_def rhe_minus)

lemma rnd_upper:
  assumes "0 \<le> x"
  shows "rnd x \<le> 2 powr real_of_int (expo x + 1)"
proof (cases "x = 0")
  case True
  then show ?thesis by simp
next
  case False
  with assms expo_upper [of x] have "x < 2 ^ 53 * ulp x"
    by (simp only: ulp_scale) simp
  then have "x / ulp x \<le> 2 ^ 53"
    by (simp add: pos_divide_le_eq)
  then have "round_half_even (x / ulp x) \<le> round_half_even (of_int (2 ^ 53))"
    using rhe_mono [of "x / ulp x" "of_int (2 ^ 53)"] by simp
  then have "round_half_even (x / ulp x) \<le> 2 ^ 53"
    by (simp only: rhe_int)
  then have "real_of_int (round_half_even (x / ulp x)) \<le> 2 ^ 53"
    by (metis of_int_le_iff of_int_numeral of_int_power)
  then show ?thesis
    unfolding rnd_def ulp_scale by (simp add: mult_right_mono)
qed

lemma rnd_lower:
  assumes "0 < x" and "- 1022 < expo x"
  shows "2 powr real_of_int (expo x) \<le> rnd x"
proof -
  from assms expo_lower [of x] have "2 ^ 52 * ulp x \<le> x"
    by (simp only: ulp_scale') simp
  then have "2 ^ 52 \<le> x / ulp x"
    by (simp add: pos_le_divide_eq)
  then have "round_half_even (of_int (2 ^ 52)) \<le> round_half_even (x / ulp x)"
    using rhe_mono [of "of_int (2 ^ 52)" "x / ulp x"] by simp
  then have "2 ^ 52 \<le> round_half_even (x / ulp x)"
    by (simp only: rhe_int)
  then have "2 ^ 52 \<le> real_of_int (round_half_even (x / ulp x))"
    by (metis of_int_le_iff of_int_numeral of_int_power)
  then show ?thesis
    unfolding rnd_def ulp_scale' by (simp add: mult_right_mono)
qed

lemma rnd_nonneg:
  assumes "0 \<le> x"
  shows "0 \<le> rnd x"
proof -
  have "0 \<le> x / ulp x"
    using assms by (intro divide_nonneg_nonneg) simp_all
  then have "round_half_even 0 \<le> round_half_even (x / ulp x)"
    by (rule rhe_mono)
  then have "0 \<le> round_half_even (x / ulp x)"
    using rhe_int [of 0] by simp
  then show ?thesis
    by (simp add: rnd_def)
qed

lemma rnd_mono_pos:
  assumes "0 < x" and "x \<le> y"
  shows "rnd x \<le> rnd y"
proof (cases "expo x = expo y")
  case True
  then have u: "ulp x = ulp y"
    by (simp add: ulp_def)
  have "x / ulp y \<le> y / ulp y"
    using assms(2) by (intro divide_right_mono) simp_all
  then have "round_half_even (x / ulp y) \<le> round_half_even (y / ulp y)"
    by (rule rhe_mono)
  then show ?thesis
    by (simp add: rnd_def u mult_right_mono)
next
  case False
  with expo_mono [OF assms] have lt: "expo x + 1 \<le> expo y"
    by simp
  then have "- 1022 < expo y"
    using expo_ge [of x] by linarith
  with assms have "2 powr real_of_int (expo y) \<le> rnd y"
    by (intro rnd_lower) auto
  moreover have "rnd x \<le> 2 powr real_of_int (expo x + 1)"
    using assms by (intro rnd_upper) auto
  moreover have "(2::real) powr real_of_int (expo x + 1) \<le> 2 powr real_of_int (expo y)"
    using lt by simp
  ultimately show ?thesis
    by linarith
qed

lemma rnd_mono:
  assumes "x \<le> y"
  shows "rnd x \<le> rnd y"
proof -
  consider "0 < x" | "x \<le> 0" "0 \<le> y" | "y < 0"
    using assms by linarith
  then show ?thesis
  proof cases
    case 1
    then show ?thesis using assms by (rule rnd_mono_pos)
  next
    case 2
    then have "0 \<le> rnd y" "0 \<le> rnd (- x)"
      by (simp_all add: rnd_nonneg)
    then show ?thesis
      by (simp add: rnd_minus)
  next
    case 3
    with assms have "rnd (- y) \<le> rnd (- x)"
      by (intro rnd_mono_pos) auto
    then show ?thesis
      by (simp add: rnd_minus)
  qed
qed

lemma rnd_exact:
  assumes "x / ulp x = of_int k"
  shows "rnd x = x"
proof -
  have "rnd x = of_int k * ulp x"
    using assms by (simp add: rnd_def)
  also have "\<dots> = x"
    using assms [symmetric] by simp
  finally show ?thesis .
qed

lemma rnd_power2: "rnd (2 ^ n) = 2 ^ n"
proof -
  have "(2::real) ^ n = 2 powr real_of_int (int n)"
    by (simp add: two_powr_nat)
  also have "\<dots> = 2 ^ 52 * ulp (2 ^ n)"
    using ulp_scale' [of "2 ^ n"] by (simp only: expo_power2)
  finally have "(2::real) ^ n / ulp (2 ^ n) = 2 ^ 52"
    by (metis nonzero_mult_div_cancel_right ulp_neq0)
  then have "(2::real) ^ n / ulp (2 ^ n) = of_int (2 ^ 52)"
    by simp
  then show ?thesis
    by (rule rnd_exact)
qed

lemma rnd_of_nat:
  assumes "n \<le> 2 ^ 53"
  shows "rnd (real n) = real n"
proof (cases "n = 0")
  case True
  then show ?thesis by simp
next
  case False
  define e where "e = expo (real n)"
  have pos: "0 < real n"
    using False by simp
  have "expo 1 \<le> expo (real n)"
    using False by (intro expo_mono) auto
  moreover have "expo 1 = 0"
    using expo_power2 [of 0] by simp
  ultimately have e0: "0 \<le> e"
    by (simp add: e_def)
  have "real n \<le> 2 ^ 53"
    using assms by (metis of_nat_le_iff of_nat_numeral of_nat_power)
  with pos have "expo (real n) \<le> expo (2 ^ 53)"
    by (rule expo_mono)
  then have "e \<le> int 53"
    unfolding e_def expo_power2 .
  then have e53: "e \<le> 53"
    by simp
  show ?thesis
  proof (cases "e = 53")
    case True
    then have "- 1022 < expo (real n)"
      by (simp add: e_def)
    with pos expo_lower [of "real n"] have "2 powr real_of_int (expo (real n)) \<le> real n"
      by simp
    moreover have "(2::real) powr real_of_int (expo (real n)) = 2 ^ 53"
      using True two_powr_int [of 53] by (simp add: e_def)
    ultimately have "real n = 2 ^ 53"
      using \<open>real n \<le> 2 ^ 53\<close> by linarith
    then show ?thesis
      using rnd_power2 [of 53] by (simp only:)
  next
    case False
    with e53 have le: "e \<le> 52"
      by simp
    have "ulp (real n) = 2 powr real_of_int (e - 52)"
      by (simp add: ulp_def e_def)
    also have "\<dots> = inverse (2 powr real_of_int (52 - e))"
      by (simp add: powr_minus [symmetric])
    also have "\<dots> = inverse (2 ^ nat (52 - e))"
      using le two_powr_int [of "52 - e"] by (simp only:)
    finally have "real n / ulp (real n) = real n * 2 ^ nat (52 - e)"
      by (simp add: divide_inverse)
    also have "\<dots> = of_int (int n * 2 ^ nat (52 - e))"
      by simp
    finally show ?thesis
      by (rule rnd_exact)
  qed
qed

lemma rnd_numeral [simp]:
  "numeral k \<le> (2::nat) ^ 53 \<Longrightarrow> rnd (numeral k) = numeral k"
  using rnd_of_nat [of "numeral k"] by simp

lemma rnd_1 [simp]: "rnd 1 = 1"
  using rnd_of_nat [of 1] by simp

lemma rnd_neg_numeral [simp]:
  "numeral k \<le> (2::nat) ^ 53 \<Longrightarrow> rnd (- numeral k) = - numeral k"
  by (simp add: rnd_minus)


lemma rnd_quarter: "rnd (1 / 4) = 1 / 4"
proof -
  have "(2::real) powr - 2 = 1 / 2 powr 2" "(2::real) powr - 1 = 1 / 2 powr 1"
    by (rule powr_minus_divide)+
  then have p: "(2::real) powr - 2 = 1 / 4" "(2::real) powr - 1 = 1 / 2"
    by simp_all
  have "expo (1 / 4) = - 2"
    by (rule expo_eqI) (simp_all add: p)
  then have "ulp (1 / 4) = 2 powr - 54"
    by (simp add: ulp_def)
  also have "\<dots> = 1 / 2 powr 54"
    by (rule powr_minus_divide)
  also have "\<dots> = 1 / 2 ^ 54"
    using two_powr_nat [of 54] by simp
  finally have u: "ulp (1 / 4) = 1 / 2 ^ 54" .
  have "1 / 4 / ulp (1 / 4) = real_of_int (2 ^ 52)"
    unfolding u by simp
  then show ?thesis
    by (rule rnd_exact)
qed

text \<open>The rounding is a projection: a rounded value is a double.\<close>

lemma mantissa_upper:
  assumes "0 \<le> x"
  shows "round_half_even (x / ulp x) \<le> 2 ^ 53"
proof (cases "x = 0")
  case True
  then show ?thesis
    using rhe_int [of 0] by simp
next
  case False
  with assms expo_upper [of x] have "x < 2 ^ 53 * ulp x"
    by (simp only: ulp_scale) simp
  then have "x / ulp x \<le> 2 ^ 53"
    by (simp add: pos_divide_le_eq)
  then have "round_half_even (x / ulp x) \<le> round_half_even (of_int (2 ^ 53))"
    using rhe_mono [of "x / ulp x" "of_int (2 ^ 53)"] by simp
  then show ?thesis
    by (simp only: rhe_int)
qed

lemma mantissa_lower:
  assumes "0 < x" and "- 1022 < expo x"
  shows "2 ^ 52 \<le> round_half_even (x / ulp x)"
proof -
  from assms expo_lower [of x] have "2 ^ 52 * ulp x \<le> x"
    by (simp only: ulp_scale') simp
  then have "2 ^ 52 \<le> x / ulp x"
    by (simp add: pos_le_divide_eq)
  then have "round_half_even (of_int (2 ^ 52)) \<le> round_half_even (x / ulp x)"
    using rhe_mono [of "of_int (2 ^ 52)" "x / ulp x"] by simp
  then show ?thesis
    by (simp only: rhe_int)
qed

lemma mantissa_nonneg:
  assumes "0 \<le> x"
  shows "0 \<le> round_half_even (x / ulp x)"
proof -
  have "0 \<le> x / ulp x"
    using assms by (intro divide_nonneg_nonneg) simp_all
  then have "round_half_even 0 \<le> round_half_even (x / ulp x)"
    by (rule rhe_mono)
  then show ?thesis
    using rhe_int [of 0] by simp
qed

lemma rnd_grid:
  fixes k e :: int
  assumes "0 \<le> k" and "k \<le> 2 ^ 53" and "2 ^ 52 \<le> k \<or> e = - 1022" and "- 1022 \<le> e"
  shows "rnd (of_int k * 2 powr real_of_int (e - 52)) = of_int k * 2 powr real_of_int (e - 52)"
proof -
  define u :: real where "u = 2 powr real_of_int (e - 52)"
  define z where "z = of_int k * u"
  have u: "0 < u"
    by (simp add: u_def)
  have pe: "2 powr real_of_int e = 2 ^ 52 * u"
  proof -
    have "real_of_int e = 52 + real_of_int (e - 52)"
      by simp
    then have "2 powr real_of_int e = 2 powr 52 * u"
      unfolding u_def by (metis powr_add)
    then show ?thesis
      using two_powr_nat [of 52] by simp
  qed
  have pe1: "2 powr real_of_int (e + 1) = 2 ^ 53 * u"
  proof -
    have "real_of_int (e + 1) = 53 + real_of_int (e - 52)"
      by simp
    then have "2 powr real_of_int (e + 1) = 2 powr 53 * u"
      unfolding u_def by (metis powr_add)
    then show ?thesis
      using two_powr_nat [of 53] by simp
  qed
  have pe2: "2 powr real_of_int (e + 1 + 1) = 2 ^ 54 * u"
  proof -
    have "real_of_int (e + 1 + 1) = 54 + real_of_int (e - 52)"
      by simp
    then have "2 powr real_of_int (e + 1 + 1) = 2 powr 54 * u"
      unfolding u_def by (metis powr_add)
    then show ?thesis
      using two_powr_nat [of 54] by simp
  qed
  have z0: "0 \<le> z"
    using assms(1) u by (simp add: z_def)
  consider "k = 0" | "0 < k" "k < 2 ^ 52" | "2 ^ 52 \<le> k" "k < 2 ^ 53" | "k = 2 ^ 53"
    using assms(1, 2) by linarith
  then have "rnd z = z"
  proof cases
    case 1
    then show ?thesis by (simp add: z_def)
  next
    case 2
    with assms(3) have e: "e = - 1022"
      by simp
    from 2 have "real_of_int k < 2 ^ 52"
      by (metis of_int_less_iff of_int_numeral of_int_power)
    then have "z < 2 ^ 52 * u"
      using u by (simp add: z_def)
    then have "\<bar>z\<bar> < 2 powr (- 1022)"
      using z0 pe e by simp
    then have "expo z = e"
      using e by (simp add: expo_subnormal)
    then have "ulp z = u"
      by (simp add: ulp_def u_def)
    then have "z / ulp z = of_int k"
      using u by (simp add: z_def)
    then show ?thesis
      by (rule rnd_exact)
  next
    case 3
    then have "2 ^ 52 \<le> real_of_int k" "real_of_int k < 2 ^ 53"
      by (metis of_int_le_iff of_int_numeral of_int_power,
          metis of_int_less_iff of_int_numeral of_int_power)
    then have "2 ^ 52 * u \<le> z" "z < 2 ^ 53 * u"
      using u by (simp_all add: z_def)
    then have "2 powr real_of_int e \<le> \<bar>z\<bar>" "\<bar>z\<bar> < 2 powr real_of_int (e + 1)"
      using z0 by (simp_all only: pe pe1 abs_of_nonneg)
    then have "expo z = e"
      using assms(4) by (rule expo_eqI)
    then have "ulp z = u"
      by (simp add: ulp_def u_def)
    then have "z / ulp z = of_int k"
      using u by (simp add: z_def)
    then show ?thesis
      by (rule rnd_exact)
  next
    case 4
    then have k: "real_of_int k = 2 ^ 53"
      by simp
    then have zz: "z = 2 ^ 53 * u"
      by (simp add: z_def)
    have az: "\<bar>z\<bar> = 2 ^ 53 * u"
      using z0 zz by simp
    have "2 powr real_of_int (e + 1) \<le> \<bar>z\<bar>"
      unfolding pe1 az by simp
    moreover have "\<bar>z\<bar> < 2 powr real_of_int (e + 1 + 1)"
      unfolding pe2 az using u by simp
    ultimately have "2 powr real_of_int (e + 1) \<le> \<bar>z\<bar>" "\<bar>z\<bar> < 2 powr real_of_int (e + 1 + 1)"
      by simp_all
    then have "expo z = e + 1"
      using assms(4) by (intro expo_eqI) simp_all
    then have "ulp z = 2 powr real_of_int (e + 1 - 52)"
      by (simp add: ulp_def)
    also have "\<dots> = 2 * u"
    proof -
      have "real_of_int (e + 1 - 52) = 1 + real_of_int (e - 52)"
        by simp
      then have "2 powr real_of_int (e + 1 - 52) = 2 powr 1 * u"
        unfolding u_def by (metis powr_add)
      then show ?thesis
        by simp
    qed
    finally have "z / ulp z = 2 ^ 52"
      using u by (simp add: zz)
    then have "z / ulp z = of_int (2 ^ 52)"
      by simp
    then show ?thesis
      by (rule rnd_exact)
  qed
  then show ?thesis
    by (simp add: z_def u_def)
qed

lemma rnd_idem_nonneg:
  assumes "0 \<le> x"
  shows "rnd (rnd x) = rnd x"
proof -
  have normal: "2 ^ 52 \<le> round_half_even (x / ulp x) \<or> expo x = - 1022"
  proof (cases "- 1022 < expo x")
    case True
    then have "x \<noteq> 0"
      by (auto simp: expo_def)
    with assms True show ?thesis
      by (intro disjI1 mantissa_lower) auto
  next
    case False
    then show ?thesis
      using expo_ge [of x] by simp
  qed
  show ?thesis
    using rnd_grid [OF mantissa_nonneg [OF assms] mantissa_upper [OF assms] normal expo_ge]
    unfolding rnd_def [of x] ulp_def .
qed

lemma rnd_idem [simp]: "rnd (rnd x) = rnd x"
proof (cases "0 \<le> x")
  case True
  then show ?thesis by (rule rnd_idem_nonneg)
next
  case False
  then have "rnd (rnd (- x)) = rnd (- x)"
    by (intro rnd_idem_nonneg) simp
  then show ?thesis
    by (simp add: rnd_minus)
qed

text \<open>
  Below the overflow threshold the rounding stays within \<^verbatim>\<open>MAX_VALUE\<close>.
\<close>

lemma rnd_range_nonneg:
  assumes "0 \<le> x" and "x < OVERFLOW"
  shows "rnd x \<le> MAX_VALUE"
proof (cases "expo x \<le> 1022")
  case True
  then have "expo x + 1 \<le> 1023"
    by simp
  then have "real_of_int (expo x + 1) \<le> real_of_int 1023"
    by (simp only: of_int_le_iff)
  then have "(2::real) powr real_of_int (expo x + 1) \<le> 2 powr real_of_int 1023"
    by (intro powr_mono) simp_all
  also have "\<dots> = 2 ^ 1023"
    using two_powr_int [of 1023] by simp
  also have "\<dots> \<le> MAX_VALUE"
    by (simp add: MAX_VALUE_def)
  finally show ?thesis
    using rnd_upper [OF assms(1)] by linarith
next
  case False
  then have big: "- 1022 < expo x" "1023 \<le> expo x"
    by simp_all
  then have x0: "x \<noteq> 0"
    by (auto simp: expo_def)
  have "x < 2 ^ 1024"
    using assms(2) by (simp add: OVERFLOW_def)
  also have "\<dots> = 2 powr real_of_int 1024"
    using two_powr_int [of 1024] by simp
  finally have "2 powr real_of_int (expo x) < 2 powr real_of_int 1024"
    using expo_lower [OF x0 big(1)] assms(1) by simp
  then have "real_of_int (expo x) < real_of_int 1024"
    by (simp only: powr_less_cancel_iff) 
  then have "expo x < 1024"
    by (simp only: of_int_less_iff)
  with big have e: "expo x = 1023"
    by simp
  have u: "ulp x = 2 ^ 971"
    using two_powr_int [of 971] by (simp add: ulp_def e)
  have "x / ulp x < of_int (2 ^ 53 - 1) + 1 / 2"
    using assms(2) by (simp add: u OVERFLOW_def field_simps)
  then have "round_half_even (x / ulp x) \<le> 2 ^ 53 - 1"
    by (rule rhe_below_half)
  then have "real_of_int (round_half_even (x / ulp x)) \<le> real_of_int (2 ^ 53 - 1)"
    by (simp only: of_int_le_iff)
  then have "rnd x \<le> real_of_int (2 ^ 53 - 1) * 2 ^ 971"
    unfolding rnd_def u by (intro mult_right_mono) simp_all
  also have "\<dots> = MAX_VALUE"
    by (simp add: MAX_VALUE_def)
  finally show ?thesis .
qed

lemma rnd_range:
  assumes "\<bar>x\<bar> < OVERFLOW"
  shows "\<bar>rnd x\<bar> \<le> MAX_VALUE"
proof (cases "0 \<le> x")
  case True
  with assms rnd_range_nonneg [of x] rnd_nonneg [of x] show ?thesis
    by simp
next
  case False
  with assms rnd_range_nonneg [of "- x"] rnd_nonneg [of "- x"] show ?thesis
    by (simp add: rnd_minus)
qed

lemma MAX_below_OVERFLOW: "MAX_VALUE < OVERFLOW"
  by (simp add: MAX_VALUE_def OVERFLOW_def)

lemma OVERFLOW_pos: "0 < OVERFLOW"
  by (simp add: OVERFLOW_def)

lemma power2_below_OVERFLOW:
  assumes "n \<le> 1023"
  shows "(2::real) ^ n < OVERFLOW"
proof -
  have "(2::real) ^ n \<le> 2 ^ 1023"
    using assms by (intro power_increasing) simp_all
  also have "\<dots> < OVERFLOW"
    by (simp add: OVERFLOW_def)
  finally show ?thesis .
qed

subsection \<open>The operations\<close>

lemma fl_Fin:
  assumes "\<bar>x\<bar> < OVERFLOW"
  shows "fl x = Fin (rnd x)"
  using assms by (auto simp: fl_def)

lemma fl_not_nan [simp]: "fl x \<noteq> NotANumber"
  by (simp add: fl_def)

lemma fl_0 [simp]: "fl 0 = Fin 0"
  by (simp add: fl_def OVERFLOW_def)

lemma fl_of_nat:
  assumes "n \<le> 2 ^ 53"
  shows "fl (real n) = Fin (real n)" and "fl (- real n) = Fin (- real n)"
proof -
  have "real n \<le> 2 ^ 53"
    using assms by (metis of_nat_le_iff of_nat_numeral of_nat_power)
  also have "\<dots> < OVERFLOW"
    by (simp add: OVERFLOW_def)
  finally have "\<bar>real n\<bar> < OVERFLOW" "\<bar>- real n\<bar> < OVERFLOW"
    by simp_all
  then show "fl (real n) = Fin (real n)" and "fl (- real n) = Fin (- real n)"
    using rnd_of_nat [OF assms] by (simp_all add: fl_Fin rnd_minus)
qed

lemma fl_numeral [simp]:
  "numeral k \<le> (2::nat) ^ 53 \<Longrightarrow> fl (numeral k) = Fin (numeral k)"
  "numeral k \<le> (2::nat) ^ 53 \<Longrightarrow> fl (- numeral k) = Fin (- numeral k)"
  using fl_of_nat [of "numeral k"] by simp_all

lemma fl_1 [simp]: "fl 1 = Fin 1" "fl (- 1) = Fin (- 1)"
  using fl_of_nat [of 1] by simp_all

lemma fl_nn:
  assumes "0 \<le> x"
  shows "nn (fl x)"
proof (cases "x < OVERFLOW")
  case True
  with assms have "fl x = Fin (rnd x)"
    by (intro fl_Fin) simp
  moreover have "0 \<le> rnd x" "rnd x \<le> MAX_VALUE"
    using assms True by (simp_all add: rnd_nonneg rnd_range_nonneg)
  ultimately show ?thesis
    by simp
next
  case False
  then show ?thesis
    by (simp add: fl_def)
qed

lemma fl_between:
  assumes "lo \<le> x" and "x \<le> hi" and "rnd lo = lo" and "rnd hi = hi"
      and "- OVERFLOW < lo" and "hi < OVERFLOW"
  shows "\<exists>r. fl x = Fin r \<and> lo \<le> r \<and> r \<le> hi"
proof -
  have "fl x = Fin (rnd x)"
    using assms by (intro fl_Fin) simp
  moreover have "lo \<le> rnd x" "rnd x \<le> hi"
    using rnd_mono [OF assms(1)] rnd_mono [OF assms(2)] assms(3, 4) by simp_all
  ultimately show ?thesis
    by simp
qed

lemma fl_percent:
  assumes "0 \<le> x" and "x \<le> 100"
  shows "\<exists>r. fl x = Fin r \<and> 0 \<le> r \<and> r \<le> 100"
  using assms by (intro fl_between) (simp_all add: OVERFLOW_def)

lemma fl_below_power2:
  assumes "\<bar>x\<bar> \<le> 2 ^ n" and "n \<le> 1023"
  shows "\<exists>r. fl x = Fin r \<and> \<bar>r\<bar> \<le> 2 ^ n \<and> (0 \<le> x \<longrightarrow> 0 \<le> r)"
proof -
  have "\<exists>r. fl x = Fin r \<and> - (2 ^ n) \<le> r \<and> r \<le> 2 ^ n"
    using assms power2_below_OVERFLOW [OF assms(2)]
    by (intro fl_between) (simp_all add: rnd_power2 rnd_minus)
  moreover have "\<bar>x\<bar> < OVERFLOW"
    using assms power2_below_OVERFLOW [OF assms(2)] by simp
  ultimately show ?thesis
    by (auto simp: fl_Fin rnd_nonneg)
qed

lemma d_sub_not_nan [simp]: "d_sub (Fin a) (Fin b) \<noteq> NotANumber"
  by (simp add: d_sub_def)

lemma number_cases:
  "number d = NaN \<longleftrightarrow> (\<forall>r. d \<noteq> Fin r)" "number d = Num r \<longleftrightarrow> d = Fin r" "number d \<noteq> Undefined"
  by (cases d; simp)+

lemma first_price: "prices \<noteq> [] \<Longrightarrow> d_index (map Fin prices) 0 = Some (Fin (hd prices))"
  by (cases prices) (simp_all add: d_index_def)

text \<open>What an operation returns is a double, to which adding 0 changes nothing.\<close>

lemma exact_fl [simp]: "exact (fl x)"
proof (cases "\<bar>x\<bar> < OVERFLOW")
  case True
  with rnd_range [OF True] MAX_below_OVERFLOW show ?thesis
    by (simp add: fl_Fin)
next
  case False
  then show ?thesis
    using OVERFLOW_pos by (auto simp: fl_def)
qed

lemma exact_add [simp]: "exact (d_add a b)"
  by (cases a; cases b) simp_all

lemma exact_mul [simp]: "exact (d_mul a b)"
  by (cases a; cases b) simp_all

lemma exact_div [simp]: "exact (d_div a b)"
  by (cases a; cases b) (simp_all add: OVERFLOW_pos)

lemma add_zero:
  assumes "exact g"
  shows "d_add g (Fin 0) = g"
  using assms by (cases g) (simp_all add: fl_Fin)

lemma zero_add:
  assumes "exact g"
  shows "d_add (Fin 0) g = g"
  using assms by (cases g) (simp_all add: fl_Fin)

text \<open>Sums and averages of non-negative doubles.\<close>

lemma nn_add:
  assumes "nn a" and "nn b"
  shows "nn (d_add a b)"
proof (cases a)
  case (Fin x)
  with assms show ?thesis
    by (cases b) (simp_all add: fl_nn)
next
  case PosInf
  with assms show ?thesis
    by (cases b) simp_all
qed (use assms in simp_all)

lemma nn_foldl:
  assumes "nn g" and "\<forall>d \<in> set ds. nn d"
  shows "nn (foldl d_add g ds)"
  using assms by (induction ds arbitrary: g) (simp_all add: nn_add)

lemma average_finite:
  assumes "nn g" and "0 < p"
  shows "nn (d_div g (Fin (real p)))"
    and "d_div g (Fin (real p)) = PosInf \<longleftrightarrow> g = PosInf"
proof -
  show "nn (d_div g (Fin (real p)))"
    using assms by (cases g) (simp_all add: fl_nn)
  show "d_div g (Fin (real p)) = PosInf \<longleftrightarrow> g = PosInf"
  proof (cases g)
    case (Fin x)
    with assms have x: "0 \<le> x" "x \<le> MAX_VALUE"
      by simp_all
    have "1 \<le> real p"
      using assms(2) by simp
    then have "x / real p \<le> x / 1"
      using x(1) by (intro divide_left_mono) simp_all
    with x MAX_below_OVERFLOW have "\<bar>x / real p\<bar> < OVERFLOW"
      by simp
    then show ?thesis
      using Fin assms(2) by (simp add: fl_Fin)
  qed (use assms in simp_all)
qed

text \<open>
  A sum of \<open>k\<close> numbers between 0 and \<open>2\<^sup>n\<close> stays below \<open>2\<^sup>n\<^sup>+\<^sup>k\<close>.
\<close>

lemma sum_bounded:
  assumes "0 \<le> g" and "g \<le> 2 ^ n"
      and "\<forall>d \<in> set ds. \<exists>x. d = Fin x \<and> 0 \<le> x \<and> x \<le> 2 ^ n"
      and "n + length ds \<le> 1023"
  shows "\<exists>s. foldl d_add (Fin g) ds = Fin s \<and> 0 \<le> s \<and> s \<le> 2 ^ (n + length ds)"
  using assms
proof (induction ds arbitrary: g n)
  case Nil
  then show ?case by simp
next
  case (Cons d ds)
  from Cons.prems(3) obtain x where x: "d = Fin x" "0 \<le> x" "x \<le> 2 ^ n"
    by auto
  have "\<bar>g + x\<bar> \<le> 2 ^ (n + 1)"
    using Cons.prems(1, 2) x by simp
  moreover have "n + 1 \<le> 1023"
    using Cons.prems(4) by simp
  ultimately obtain r where r: "fl (g + x) = Fin r" "\<bar>r\<bar> \<le> 2 ^ (n + 1)" "0 \<le> r"
    using fl_below_power2 [of "g + x" "n + 1"] Cons.prems(1) x(2) by auto
  have "\<forall>d \<in> set ds. \<exists>x. d = Fin x \<and> 0 \<le> x \<and> x \<le> 2 ^ (n + 1)"
  proof
    fix d assume "d \<in> set ds"
    with Cons.prems(3) obtain y where "d = Fin y" "0 \<le> y" "y \<le> 2 ^ n"
      by auto
    moreover have "(2::real) ^ n \<le> 2 ^ (n + 1)"
      by simp
    ultimately show "\<exists>x. d = Fin x \<and> 0 \<le> x \<and> x \<le> 2 ^ (n + 1)"
      by (metis order_trans)
  qed
  moreover have "n + 1 + length ds \<le> 1023"
    using Cons.prems(4) by simp
  ultimately have "\<exists>s. foldl d_add (Fin r) ds = Fin s \<and> 0 \<le> s \<and> s \<le> 2 ^ (n + 1 + length ds)"
    using r by (intro Cons.IH) simp_all
  then show ?case
    using x(1) r(1) by simp
qed

text \<open>The two sample doubles.\<close>

lemma huge_facts [simp]:
  "0 < huge" "rnd huge = huge" "fl huge = Fin huge" "fl (- huge) = Fin (- huge)"
  "fl (2 * huge) = PosInf" "\<bar>huge\<bar> = huge" "\<not> huge < 0"
proof -
  show pos: "0 < huge"
    by (simp add: huge_def)
  show r: "rnd huge = huge"
    unfolding huge_def by (rule rnd_power2)
  have lt: "\<bar>huge\<bar> < OVERFLOW" "\<bar>- huge\<bar> < OVERFLOW"
    by (simp_all add: huge_def OVERFLOW_def)
  show "fl huge = Fin huge"
    using fl_Fin [OF lt(1)] r by simp
  show "fl (- huge) = Fin (- huge)"
    using fl_Fin [OF lt(2)] r by (simp add: rnd_minus)
  show "fl (2 * huge) = PosInf"
    by (simp add: fl_def huge_def OVERFLOW_def)
  show "\<bar>huge\<bar> = huge" "\<not> huge < 0"
    using pos by simp_all
qed

lemma tiny_powr: "tiny = 2 powr (- 1074)"
proof -
  have "(2::real) powr (- 1074) = inverse (2 powr 1074)"
    by (rule powr_minus)
  also have "\<dots> = inverse (2 ^ 1074)"
    using two_powr_nat [of 1074] by simp
  finally show ?thesis
    by (simp add: tiny_def inverse_eq_divide)
qed

lemma tiny_pos: "0 < tiny"
  by (simp add: tiny_def)

lemma ulp_subnormal:
  assumes "\<bar>x\<bar> \<le> tiny"
  shows "ulp x = tiny"
proof -
  have "tiny < 2 powr (- 1022)"
    unfolding tiny_powr by simp
  with assms have "expo x = - 1022"
    by (intro expo_subnormal) simp
  then show ?thesis
    by (simp add: ulp_def tiny_powr)
qed

lemma rnd_tiny: "rnd tiny = tiny" "rnd (- tiny) = - tiny" "rnd (tiny / 14) = 0"
proof -
  have "tiny / ulp tiny = of_int 1"
    using tiny_pos by (simp add: ulp_subnormal)
  then show t: "rnd tiny = tiny"
    by (rule rnd_exact)
  then show "rnd (- tiny) = - tiny"
    by (simp add: rnd_minus)
  have "ulp (tiny / 14) = tiny"
    using tiny_pos by (intro ulp_subnormal) simp
  then have "tiny / 14 / ulp (tiny / 14) = 1 / 14"
    using tiny_pos by simp
  moreover have "round_half_even (1 / 14) = 0"
    by (simp add: round_half_even_def)
  ultimately show "rnd (tiny / 14) = 0"
    by (simp add: rnd_def)
qed

lemma tiny_small: "\<bar>tiny\<bar> < OVERFLOW" "\<bar>tiny / 14\<bar> < OVERFLOW" "tiny \<noteq> 0"
  by (simp_all add: tiny_def OVERFLOW_def field_simps)

section \<open>Properties of the indicator engine\<close>

declare rsi_loop.simps [simp del] ema_loop.simps [simp del] ema_loop_ieee.simps [simp del]

subsection \<open>RSI\<close>

text \<open>The loop adds to its accumulators the two sums over the transitions it visits.\<close>

lemma d_sub_abs:
  assumes "\<not> d_gt d (Fin 0)"
  shows "d_sub l d = d_add l (d_abs d)"
proof -
  have "d_neg d = d_abs d"
    using assms by (cases d) auto
  then show ?thesis
    by (simp add: d_sub_def)
qed

lemma rsi_loop_sums:
  "rsi_loop prices i gains losses =
     (foldl d_add gains
        (filter (\<lambda>d. d_gt d (Fin 0))
           (map (\<lambda>j. d_sub (Fin (prices ! j)) (Fin (prices ! (j - 1)))) [i ..< length prices])),
      foldl d_add losses
        (map d_abs (filter (\<lambda>d. \<not> d_gt d (Fin 0))
           (map (\<lambda>j. d_sub (Fin (prices ! j)) (Fin (prices ! (j - 1)))) [i ..< length prices]))))"
proof (induction prices i gains losses rule: rsi_loop.induct)
  case (1 prices i gains losses)
  show ?case
  proof (cases "i < length prices")
    case False
    then show ?thesis
      by (simp add: rsi_loop.simps [of prices i])
  next
    case True
    then have upt: "[i ..< length prices] = i # [i + 1 ..< length prices]"
      by (simp add: upt_conv_Cons)
    show ?thesis
    proof (cases "d_gt (d_sub (Fin (prices ! i)) (Fin (prices ! (i - 1)))) (Fin 0)")
      case up: True
      with True "1.IH"(1) show ?thesis
        by (subst rsi_loop.simps) (simp add: upt)
    next
      case down: False
      with True "1.IH"(2) show ?thesis
        by (subst rsi_loop.simps) (simp add: upt d_sub_abs)
    qed
  qed
qed

text \<open>
  A delta is a number or an infinity, never \<^verbatim>\<open>NaN\<close>. The loop subtracts every delta that
  is not positive, the reference definition adds the absolute values of the negative
  ones: the deltas that are 0 make no difference.
\<close>

lemma delta_cases:
  "(\<exists>x. d_sub (Fin a) (Fin b) = Fin x \<and> \<bar>x\<bar> \<le> MAX_VALUE)
   \<or> d_sub (Fin a) (Fin b) = PosInf \<or> d_sub (Fin a) (Fin b) = NegInf"
proof (cases "\<bar>a - b\<bar> < OVERFLOW")
  case True
  then have "d_sub (Fin a) (Fin b) = Fin (rnd (a - b))"
    by (simp add: d_sub_def fl_Fin)
  with rnd_range [OF True] show ?thesis
    by simp
next
  case False
  then show ?thesis
    by (auto simp: d_sub_def fl_def)
qed

lemma nn_gain:
  assumes "d_gt (d_sub (Fin a) (Fin b)) (Fin 0)"
  shows "nn (d_sub (Fin a) (Fin b))"
  using assms delta_cases [of a b] by auto

lemma nn_loss:
  shows "nn (d_abs (d_sub (Fin a) (Fin b)))"
  using delta_cases [of a b] by auto

lemma losses_skip_zero:
  assumes "exact g" and "\<forall>d \<in> set ds. d \<noteq> NotANumber"
  shows "foldl d_add g (map d_abs (filter (\<lambda>d. \<not> d_gt d (Fin 0)) ds))
       = foldl d_add g (map d_abs (filter (\<lambda>d. d_gt (Fin 0) d) ds))"
  using assms
proof (induction ds arbitrary: g)
  case Nil
  show ?case by simp
next
  case (Cons d ds)
  from Cons.prems(2) have d: "d \<noteq> NotANumber" and ds: "\<forall>d \<in> set ds. d \<noteq> NotANumber"
    by simp_all
  have "d_gt d (Fin 0) \<or> d_gt (Fin 0) d \<or> d = Fin 0"
    using d by (cases d) auto
  then consider "d_gt d (Fin 0)" | "d_gt (Fin 0) d" | "d = Fin 0"
    by blast
  then show ?case
  proof cases
    case 1
    then have "\<not> d_gt (Fin 0) d"
      by (cases d) auto
    with 1 Cons.IH [OF Cons.prems(1) ds] show ?thesis
      by simp
  next
    case 2
    then have "\<not> d_gt d (Fin 0)"
      by (cases d) auto
    with 2 Cons.IH [OF exact_add ds, of g "d_abs d"] show ?thesis
      by simp
  next
    case 3
    with Cons.IH [OF Cons.prems(1) ds] Cons.prems(1) show ?thesis
      by (simp add: add_zero)
  qed
qed

lemma total_losses_loop:
  "total_losses (transitions prices period)
   = foldl d_add (Fin 0) (map d_abs (filter (\<lambda>d. \<not> d_gt d (Fin 0)) (transitions prices period)))"
  unfolding total_losses_def
  by (rule losses_skip_zero [symmetric]) (auto simp: transitions_def OVERFLOW_pos)

lemma rsi_loop_totals:
  "rsi_loop prices (length prices - period) (Fin 0) (Fin 0)
   = (total_gains (transitions prices period), total_losses (transitions prices period))"
proof -
  have "rsi_loop prices (length prices - period) (Fin 0) (Fin 0)
      = (foldl d_add (Fin 0) (filter (\<lambda>d. d_gt d (Fin 0)) (transitions prices period)),
         foldl d_add (Fin 0)
           (map d_abs (filter (\<lambda>d. \<not> d_gt d (Fin 0)) (transitions prices period))))"
    unfolding transitions_def by (rule rsi_loop_sums)
  then show ?thesis
    by (simp only: total_losses_loop total_gains_def)
qed

lemma calculateRSI_spec: "calculateRSI prices period = RSI_spec prices period"
  by (simp add: calculateRSI_def RSI_spec_def rsi_loop_totals Let_def)

lemma calculateRSI_defined: "calculateRSI prices period \<noteq> Undefined"
  by (simp add: calculateRSI_def Let_def number_cases split: prod.split)

text \<open>
  Both sums are non-negative. The last line of \<^verbatim>\<open>calculateRSI\<close> on two averages: \<^verbatim>\<open>NaN\<close>
  when both are infinite, a number between 0 and 100 otherwise.
\<close>

lemma nn_total_gains: "nn (total_gains (transitions prices period))"
  unfolding total_gains_def transitions_def
  by (intro nn_foldl) (auto simp: nn_gain MAX_VALUE_def)

lemma nn_total_losses: "nn (total_losses (transitions prices period))"
  unfolding total_losses_def transitions_def
  by (intro nn_foldl) (auto simp: nn_loss MAX_VALUE_def)

lemma rsi_quotient:
  assumes "nn ag" and "nn al" and "\<not> d_eq al (Fin 0)"
  shows "(ag = PosInf \<and> al = PosInf
            \<and> d_sub (Fin 100) (d_div (Fin 100) (d_add (Fin 1) (d_div ag al))) = NotANumber)
       \<or> (\<not> (ag = PosInf \<and> al = PosInf)
            \<and> (\<exists>r. d_sub (Fin 100) (d_div (Fin 100) (d_add (Fin 1) (d_div ag al))) = Fin r
                  \<and> 0 \<le> r \<and> r \<le> 100))"
proof (cases "ag = PosInf \<and> al = PosInf")
  case True
  then show ?thesis
    by (simp add: d_sub_def)
next
  case False
  have rs: "nn (d_div ag al)"
  proof (cases al)
    case (Fin l)
    with assms have "0 < l"
      by simp
    with Fin assms(1) show ?thesis
      by (cases ag) (simp_all add: fl_nn)
  next
    case PosInf
    with False assms(1) show ?thesis
      by (cases ag) (simp_all add: MAX_VALUE_def)
  qed (use assms in simp_all)
  have y: "d_add (Fin 1) (d_div ag al) = PosInf
      \<or> (\<exists>y. d_add (Fin 1) (d_div ag al) = Fin y \<and> 1 \<le> y)"
  proof (cases "d_div ag al")
    case (Fin r)
    with rs have r: "0 \<le> r"
      by simp
    show ?thesis
    proof (cases "1 + r < OVERFLOW")
      case True
      with r have "fl (1 + r) = Fin (rnd (1 + r))"
        by (intro fl_Fin) simp
      moreover have "rnd 1 \<le> rnd (1 + r)"
        using r by (intro rnd_mono) simp
      ultimately show ?thesis
        using Fin by simp
    next
      case False
      then show ?thesis
        using Fin by (simp add: fl_def)
    qed
  qed (use rs in simp_all)
  have q: "\<exists>q. d_div (Fin 100) (d_add (Fin 1) (d_div ag al)) = Fin q \<and> 0 \<le> q \<and> q \<le> 100"
    using y
  proof
    assume "d_add (Fin 1) (d_div ag al) = PosInf"
    then show ?thesis
      by simp
  next
    assume "\<exists>y. d_add (Fin 1) (d_div ag al) = Fin y \<and> 1 \<le> y"
    then obtain y where y: "d_add (Fin 1) (d_div ag al) = Fin y" "1 \<le> y"
      by blast
    then have "100 / y \<le> 100 / 1"
      by (intro divide_left_mono) simp_all
    moreover have "0 \<le> 100 / y"
      using y(2) by simp
    ultimately have "\<exists>q. fl (100 / y) = Fin q \<and> 0 \<le> q \<and> q \<le> 100"
      by (intro fl_percent) simp_all
    with y show ?thesis
      by simp
  qed
  then obtain q where q: "d_div (Fin 100) (d_add (Fin 1) (d_div ag al)) = Fin q" "0 \<le> q" "q \<le> 100"
    by blast
  then have "\<exists>r. fl (100 + - q) = Fin r \<and> 0 \<le> r \<and> r \<le> 100"
    by (intro fl_percent) simp_all
  with q(1) False show ?thesis
    by (simp add: d_sub_def)
qed

lemma RSI_spec_range:
  assumes "0 < period"
  shows "(RSI_spec prices period = NaN \<longleftrightarrow>
            period + 1 \<le> length prices
            \<and> total_gains (transitions prices period) = PosInf
            \<and> total_losses (transitions prices period) = PosInf)
       \<and> (RSI_spec prices period = NaN
            \<or> (\<exists>r. RSI_spec prices period = Num r \<and> 0 \<le> r \<and> r \<le> 100))"
proof (cases "length prices < period + 1")
  case True
  then show ?thesis
    by (simp add: RSI_spec_def)
next
  case False
  define g where "g = total_gains (transitions prices period)"
  define l where "l = total_losses (transitions prices period)"
  define ag where "ag = d_div g (Fin (real period))"
  define al where "al = d_div l (Fin (real period))"
  have nn: "nn g" "nn l"
    by (simp_all add: g_def l_def nn_total_gains nn_total_losses)
  have av: "nn ag" "nn al" "ag = PosInf \<longleftrightarrow> g = PosInf" "al = PosInf \<longleftrightarrow> l = PosInf"
    using average_finite [OF nn(1) assms] average_finite [OF nn(2) assms]
    by (simp_all add: ag_def al_def)
  show ?thesis
  proof (cases "d_eq al (Fin 0)")
    case True
    then have "al \<noteq> PosInf"
      by auto
    with True False av(4) show ?thesis
      by (simp add: RSI_spec_def Let_def g_def [symmetric] l_def [symmetric] al_def [symmetric])
  next
    case zero: False
    from rsi_quotient [OF av(1, 2) zero] False zero av(3, 4) show ?thesis
      by (auto simp: RSI_spec_def Let_def g_def [symmetric] l_def [symmetric]
          ag_def [symmetric] al_def [symmetric] number_cases)
  qed
qed

text \<open>
  No sum overflows when the prices are at most \<open>2\<^sup>1\<^sup>0\<^sup>0\<^sup>0\<close>.
\<close>

lemma delta_bounded:
  assumes "0 \<le> a" "a \<le> 2 ^ n" "0 \<le> b" "b \<le> 2 ^ n" "n \<le> 1023"
  shows "\<exists>x. d_sub (Fin a) (Fin b) = Fin x \<and> \<bar>x\<bar> \<le> 2 ^ n"
proof -
  have "\<bar>a + - b\<bar> \<le> 2 ^ n"
    using assms by simp
  from fl_below_power2 [OF this assms(5)] show ?thesis
    by (auto simp: d_sub_def)
qed

lemma transitions_bounded:
  assumes "\<forall>p \<in> set prices. 0 \<le> p \<and> p \<le> 2 ^ n" and "n \<le> 1023"
      and "period + 1 \<le> length prices"
  shows "\<forall>d \<in> set (transitions prices period). \<exists>x. d = Fin x \<and> \<bar>x\<bar> \<le> 2 ^ n"
proof
  fix d assume "d \<in> set (transitions prices period)"
  then obtain i where i: "i < length prices" "i - 1 < length prices"
      and d: "d = d_sub (Fin (prices ! i)) (Fin (prices ! (i - 1)))"
    by (auto simp: transitions_def)
  from i assms(1) have "0 \<le> prices ! i \<and> prices ! i \<le> 2 ^ n"
      "0 \<le> prices ! (i - 1) \<and> prices ! (i - 1) \<le> 2 ^ n"
    by (simp_all add: nth_mem del: One_nat_def)
  with d assms(2) show "\<exists>x. d = Fin x \<and> \<bar>x\<bar> \<le> 2 ^ n"
    using delta_bounded [of "prices ! i" n "prices ! (i - 1)"] by simp
qed

lemma length_transitions: "length (transitions prices period) = min period (length prices)"
  by (auto simp: transitions_def)

lemma sums_finite:
  assumes "\<forall>p \<in> set prices. 0 \<le> p \<and> p \<le> 2 ^ 1000" and "period \<le> 23"
      and "period + 1 \<le> length prices"
  shows "\<exists>g. total_gains (transitions prices period) = Fin g"
    and "\<exists>l. total_losses (transitions prices period) = Fin l"
proof -
  note b = transitions_bounded [OF assms(1) _ assms(3), of ]
  have len: "length (transitions prices period) \<le> 23"
    using assms(2) by (simp add: length_transitions)
  let ?gs = "filter (\<lambda>d. d_gt d (Fin 0)) (transitions prices period)"
  let ?ls = "map d_abs (filter (\<lambda>d. d_gt (Fin 0) d) (transitions prices period))"
  have "\<forall>d \<in> set ?gs. \<exists>x. d = Fin x \<and> 0 \<le> x \<and> x \<le> 2 ^ 1000"
    using b by fastforce
  moreover have "1000 + length ?gs \<le> 1023"
    using len length_filter_le [of "\<lambda>d. d_gt d (Fin 0)" "transitions prices period"] by linarith
  ultimately have "\<exists>s. foldl d_add (Fin 0) ?gs = Fin s \<and> 0 \<le> s \<and> s \<le> 2 ^ (1000 + length ?gs)"
    by (intro sum_bounded) simp_all
  then show "\<exists>g. total_gains (transitions prices period) = Fin g"
    by (auto simp: total_gains_def)
  have "\<forall>d \<in> set ?ls. \<exists>x. d = Fin x \<and> 0 \<le> x \<and> x \<le> 2 ^ 1000"
    using b by fastforce
  moreover have "length ?ls \<le> length (transitions prices period)"
    by simp
  then have "1000 + length ?ls \<le> 1023"
    using len by linarith
  ultimately have "\<exists>s. foldl d_add (Fin 0) ?ls = Fin s \<and> 0 \<le> s \<and> s \<le> 2 ^ (1000 + length ?ls)"
    by (intro sum_bounded) simp_all
  then show "\<exists>l. total_losses (transitions prices period) = Fin l"
    by (auto simp: total_losses_def)
qed

lemma RSI_spec_bounded:
  assumes "\<forall>p \<in> set prices. 0 \<le> p \<and> p \<le> 2 ^ 1000"
  shows "\<exists>r. RSI_spec prices 14 = Num r \<and> 0 \<le> r \<and> r \<le> 100"
proof (cases "15 \<le> length prices")
  case True
  with sums_finite(1) [OF assms, of 14] have "total_gains (transitions prices 14) \<noteq> PosInf"
    by auto
  with RSI_spec_range [of 14 prices] show ?thesis
    by auto
next
  case False
  then show ?thesis
    by (simp add: RSI_spec_def)
qed

lemma RSI_spec_no_loss:
  assumes "0 < period" and "period + 1 \<le> length prices"
      and "\<forall>d \<in> set (transitions prices period). \<not> d_gt (Fin 0) d"
  shows "RSI_spec prices period = Num 100"
proof -
  have "filter (\<lambda>d. d_gt (Fin 0) d) (transitions prices period) = []"
    using assms(3) by (simp add: filter_empty_conv)
  then have "total_losses (transitions prices period) = Fin 0"
    by (simp add: total_losses_def)
  with assms(1, 2) show ?thesis
    by (simp add: RSI_spec_def)
qed

text \<open>
  Claim C2, as stated for every price series, fails where the sums overflow. On
  fifteen points that alternate between 0 and \<open>2\<^sup>1\<^sup>0\<^sup>2\<^sup>3\<close> the gains and the losses are both
  \<^verbatim>\<open>Infinity\<close> after two additions, \<^verbatim>\<open>rs\<close> is \<^verbatim>\<open>Infinity / Infinity\<close>, and the result is \<^verbatim>\<open>NaN\<close>,
  which is not in \<open>[0, 100]\<close>.
\<close>

theorem calculateRSI_overflow_counterexample:
  "calculateRSI [0, 2 ^ 1023, 0, 2 ^ 1023, 0, 2 ^ 1023, 0, 2 ^ 1023, 0, 2 ^ 1023, 0, 2 ^ 1023,
                 0, 2 ^ 1023, 0] 14 = NaN"
  unfolding huge_def [symmetric]
  by (simp add: calculateRSI_spec RSI_spec_def transitions_def total_gains_def total_losses_def
      upt_rec d_sub_def Let_def)

text \<open>
  Underflow is followed too: after one fall of \<open>2\<^sup>-\<^sup>1\<^sup>0\<^sup>7\<^sup>4\<close> and thirteen flat transitions
  the average loss \<open>2\<^sup>-\<^sup>1\<^sup>0\<^sup>7\<^sup>4 / 14\<close> rounds to 0 and the result is 100.
\<close>

lemma calculateRSI_underflow:
  "calculateRSI [1 / 2 ^ 1074, 0, 0, 0, 0, 0, 0, 0, 0, 0, 0, 0, 0, 0, 0] 14 = Num 100"
  unfolding tiny_def [symmetric]
  using tiny_pos tiny_small
  by (simp add: calculateRSI_spec RSI_spec_def transitions_def total_gains_def total_losses_def
      upt_rec d_sub_def fl_Fin rnd_tiny rnd_minus Let_def)

text \<open>
  Claim C2, amended. For every series of finite prices, \<^verbatim>\<open>calculateRSI(series, 14)\<close> is
  the value of the reference definition \<^const>\<open>RSI_spec\<close> evaluated in the arithmetic of
  the doubles: 50 for fewer than 15 points; otherwise, with the gains and losses summed
  over the last 14 transitions, 100 when the average loss is 0 (as when none of these
  transitions is negative) and \<open>100 - 100 / (1 + avgGain / avgLoss)\<close> otherwise. The
  result is \<^verbatim>\<open>NaN\<close> exactly when the series has at least 15 points and both sums overflow
  to \<^verbatim>\<open>Infinity\<close>; in every other case it is a number in \<open>[0, 100]\<close>, and so it is for
  every series of prices between 0 and \<open>2\<^sup>1\<^sup>0\<^sup>0\<^sup>0\<close>.
\<close>

theorem calculateRSI_refines_spec:
  "calculateRSI prices 14 = RSI_spec prices 14
   \<and> (calculateRSI prices 14 = NaN \<longleftrightarrow>
        15 \<le> length prices \<and> total_gains (transitions prices 14) = PosInf
        \<and> total_losses (transitions prices 14) = PosInf)
   \<and> (calculateRSI prices 14 = NaN
        \<or> (\<exists>r. calculateRSI prices 14 = Num r \<and> 0 \<le> r \<and> r \<le> 100))
   \<and> ((\<forall>p \<in> set prices. 0 \<le> p \<and> p \<le> 2 ^ 1000) \<longrightarrow>
        (\<exists>r. calculateRSI prices 14 = Num r \<and> 0 \<le> r \<and> r \<le> 100))
   \<and> (length prices < 15 \<longrightarrow> calculateRSI prices 14 = Num 50)
   \<and> (15 \<le> length prices \<and> (\<forall>d \<in> set (transitions prices 14). \<not> d_gt (Fin 0) d) \<longrightarrow>
        calculateRSI prices 14 = Num 100)"
proof -
  have short: "length prices < 15 \<longrightarrow> RSI_spec prices 14 = Num 50"
    by (simp add: RSI_spec_def)
  have period: "0 < (14::nat)"
    by simp
  note spec_range = RSI_spec_range [OF period, of prices]
  have nan: "RSI_spec prices 14 = NaN \<longleftrightarrow>
      15 \<le> length prices \<and> total_gains (transitions prices 14) = PosInf
      \<and> total_losses (transitions prices 14) = PosInf"
    using spec_range [THEN conjunct1] by simp
  have range: "RSI_spec prices 14 = NaN
      \<or> (\<exists>r. RSI_spec prices 14 = Num r \<and> 0 \<le> r \<and> r \<le> 100)"
    by (rule spec_range [THEN conjunct2])
  have rising: "15 \<le> length prices \<and> (\<forall>d \<in> set (transitions prices 14). \<not> d_gt (Fin 0) d) \<longrightarrow>
      RSI_spec prices 14 = Num 100"
    using RSI_spec_no_loss [of 14 prices] by simp
  show ?thesis
    unfolding calculateRSI_spec
    using short nan range rising RSI_spec_bounded [of prices] by blast
qed

text \<open>
  The series of section 8 of the specification (gains 33 and losses 10 over its 14
  transitions) gives a number in \<open>[0, 100]\<close>, a series of three points gives 50, and
  fifteen rising points give 100.
\<close>

theorem calculateRSI_refines_spec_witness:
  "(\<exists>r. calculateRSI [100, 102, 101, 105, 110, 108, 112, 115, 113, 118, 120, 117, 122, 125, 123] 14
          = Num r \<and> 0 \<le> r \<and> r \<le> 100)
   \<and> total_gains (transitions
        [100, 102, 101, 105, 110, 108, 112, 115, 113, 118, 120, 117, 122, 125, 123] 14) = Fin 33
   \<and> total_losses (transitions
        [100, 102, 101, 105, 110, 108, 112, 115, 113, 118, 120, 117, 122, 125, 123] 14) = Fin 10
   \<and> calculateRSI [100, 102, 101] 14 = Num 50
   \<and> calculateRSI [1, 2, 3, 4, 5, 6, 7, 8, 9, 10, 11, 12, 13, 14, 15] 14 = Num 100"
proof (intro conjI)
  show "total_gains (transitions
        [100, 102, 101, 105, 110, 108, 112, 115, 113, 118, 120, 117, 122, 125, 123] 14) = Fin 33"
    by (simp add: transitions_def total_gains_def upt_rec d_sub_def)
  show "total_losses (transitions
        [100, 102, 101, 105, 110, 108, 112, 115, 113, 118, 120, 117, 122, 125, 123] 14) = Fin 10"
    by (simp add: transitions_def total_losses_def upt_rec d_sub_def)
  show "\<exists>r. calculateRSI [100, 102, 101, 105, 110, 108, 112, 115, 113, 118, 120, 117, 122, 125, 123] 14
          = Num r \<and> 0 \<le> r \<and> r \<le> 100"
    by (rule calculateRSI_refines_spec
        [THEN conjunct2, THEN conjunct2, THEN conjunct2, THEN conjunct1, THEN mp]) simp
  show "calculateRSI [100, 102, 101] 14 = Num 50"
    by (rule calculateRSI_refines_spec
        [THEN conjunct2, THEN conjunct2, THEN conjunct2, THEN conjunct2, THEN conjunct1, THEN mp])
      simp
  show "calculateRSI [1, 2, 3, 4, 5, 6, 7, 8, 9, 10, 11, 12, 13, 14, 15] 14 = Num 100"
    by (rule calculateRSI_refines_spec
        [THEN conjunct2, THEN conjunct2, THEN conjunct2, THEN conjunct2, THEN conjunct2, THEN mp])
      (simp add: transitions_def upt_rec d_sub_def)
qed

subsection \<open>EMA\<close>








subsection \<open>MACD\<close>

text \<open>
  The multiplier \<^verbatim>\<open>2 / (period + 1)\<close> of a period from 7 on is a double between 0 and
  \<open>1/4\<close>.
\<close>

lemma multiplier_range:
  assumes "7 \<le> period" and "period < 2 ^ 53"
  shows "\<exists>m. d_div (Fin 2) (d_add (Fin (real period)) (Fin 1)) = Fin m \<and> 0 \<le> m \<and> m \<le> 1 / 4"
proof -
  have "real period + 1 = real (period + 1)"
    by simp
  moreover have "period + 1 \<le> 2 ^ 53"
    using assms(2) by simp
  ultimately have sum: "fl (real period + 1) = Fin (real period + 1)"
    using fl_of_nat(1) [of "period + 1"] by (simp only:)
  have q: "0 \<le> 2 / (real period + 1)" "2 / (real period + 1) \<le> 1 / 4"
    using assms(1) by (simp_all add: field_simps)
  moreover have "1 / 4 < OVERFLOW"
    by (simp add: OVERFLOW_def)
  ultimately have "\<bar>2 / (real period + 1)\<bar> < OVERFLOW"
    by linarith
  then have "fl (2 / (real period + 1)) = Fin (rnd (2 / (real period + 1)))"
    by (rule fl_Fin)
  moreover have "0 \<le> rnd (2 / (real period + 1))"
    using q(1) by (rule rnd_nonneg)
  moreover have "rnd (2 / (real period + 1)) \<le> 1 / 4"
    using rnd_mono [OF q(2)] by (simp only: rnd_quarter)
  ultimately show ?thesis
    using sum by (simp add: add_nonneg_eq_0_iff)
qed






lemma calculateEMA_ieee_single: "calculateEMA_ieee [x] 9 = Some x"
  by (simp add: calculateEMA_ieee_def d_index_def)

text \<open>
  The signal line is the EMA of the one-element array \<^verbatim>\<open>[macd]\<close>, which is \<open>macd\<close>
  itself; \<open>macd - macd\<close> is 0 for a number and \<^verbatim>\<open>NaN\<close> for an infinity or \<^verbatim>\<open>NaN\<close>.
\<close>

lemma histogram_cases:
  "number (d_sub m m) = (if \<exists>x. m = Fin x then Num 0 else NaN)"
  by (cases m) (simp_all add: d_sub_def)

lemma calculateMACD_line:
  "histogram (calculateMACD prices) =
     (if \<exists>x. d_sub (to_double (calculateEMA_ieee (map Fin prices) 12))
                  (to_double (calculateEMA_ieee (map Fin prices) 26)) = Fin x
      then Num 0 else NaN)"
  by (simp only: calculateMACD_def Let_def calculateEMA_ieee_single to_double_def option.case
      histogram_cases macd_result.simps)


text \<open>
  It fails as well on a series whose EMA overflows, which takes a negative price: from
  \<open>2\<^sup>1\<^sup>0\<^sup>2\<^sup>3\<close> followed by eleven times \<open>-2\<^sup>1\<^sup>0\<^sup>2\<^sup>3\<close> the first difference is \<open>-\<close>\<^verbatim>\<open>Infinity\<close>, the
  second step adds \<^verbatim>\<open>Infinity\<close> to it, and the EMA of period 12 is \<^verbatim>\<open>NaN\<close>.
\<close>

lemma calculateMACD_overflow:
  "histogram (calculateMACD [2 ^ 1023, - (2 ^ 1023), - (2 ^ 1023), - (2 ^ 1023), - (2 ^ 1023),
      - (2 ^ 1023), - (2 ^ 1023), - (2 ^ 1023), - (2 ^ 1023), - (2 ^ 1023), - (2 ^ 1023),
      - (2 ^ 1023)]) = NaN"
proof -
  have "7 \<le> (12::nat)" "(12::nat) < 2 ^ 53"
    by simp_all
  from multiplier_range [OF this] obtain m
    where m: "d_div (Fin 2) (d_add (Fin (real 12)) (Fin 1)) = Fin m" "0 \<le> m"
    by blast
  have "fl (- (2 * huge)) = NegInf"
    by (simp add: fl_def huge_def OVERFLOW_def)
  then have "ema_loop_ieee (map Fin [huge, - huge, - huge, - huge, - huge, - huge, - huge, - huge,
      - huge, - huge, - huge, - huge]) (Fin m) 1 (Some (Fin huge)) = Some NotANumber"
    using m(2) by (simp add: ema_loop_ieee.simps to_double_def d_sub_def)
  then show ?thesis
    unfolding huge_def [symmetric] calculateMACD_line
    using m(1) by (simp add: calculateEMA_ieee_def to_double_def d_sub_def d_index_def)
qed



subsection \<open>Bollinger bands\<close>

text \<open>
  On a series of at least \<open>period\<close> points the code computes the reference values of the
  window: its first fold is the sum from the first element on, and its second fold,
  from 0, is the sum of the squares, since adding a square to 0 returns the square.
\<close>

lemma reduce_from_zero:
  assumes "\<forall>d \<in> set ds. exact d"
  shows "foldl d_add (Fin 0) ds = sum_d ds"
  using assms by (cases ds) (simp_all add: zero_add)

lemma calculateBollinger_window:
  assumes "0 < period" and "period \<le> length prices"
  shows "calculateBollinger prices period =
     Some \<lparr>upper = Some (d_add (mean (last_points period prices))
                            (d_mul (Fin 2) (stddev (last_points period prices)))),
           middle = Some (mean (last_points period prices)),
           lower = Some (d_sub (mean (last_points period prices))
                            (d_mul (Fin 2) (stddev (last_points period prices))))\<rparr>"
proof -
  define w where "w = last_points period prices"
  have len: "length w = period"
    using assms by (simp add: w_def last_points_def)
  with assms(1) obtain x xs where w: "w = x # xs"
    by (cases w) auto
  have sma: "d_div (foldl d_add (Fin (hd w)) (map Fin (tl w))) (Fin (real period)) = mean w"
    by (simp add: mean_def len) (simp add: w)
  have "foldl (\<lambda>sum p. d_add sum (d_pow2 (d_sub (Fin p) (mean w)))) (Fin 0) w
      = foldl d_add (Fin 0) (map (\<lambda>p. d_pow2 (d_sub (Fin p) (mean w))) w)"
    by (simp add: foldl_map)
  also have "\<dots> = sum_d (map (\<lambda>p. d_pow2 (d_sub (Fin p) (mean w))) w)"
    by (rule reduce_from_zero) (auto simp: d_pow2_def)
  finally have std: "d_sqrt (d_div (foldl (\<lambda>sum p. d_add sum (d_pow2 (d_sub (Fin p) (mean w))))
      (Fin 0) w) (Fin (real period))) = stddev w"
    by (simp add: stddev_def len)
  have "w \<noteq> []"
    using w by simp
  with assms show ?thesis
    unfolding calculateBollinger_def
    by (simp add: Let_def last_points_def [symmetric] w_def [symmetric] sma std)
qed

lemma calculateBollinger_short:
  assumes "length prices < period"
  shows "calculateBollinger prices period =
     Some \<lparr>upper = d_index (map Fin prices) 0,
           middle = d_index (map Fin prices) 0,
           lower = d_index (map Fin prices) 0\<rparr>"
  using assms by (simp add: calculateBollinger_def)

text \<open>
  When the mean is an infinity every square is \<^verbatim>\<open>Infinity\<close>, and so is the deviation.
  When the mean is a number the deviation is a non-negative number or \<^verbatim>\<open>Infinity\<close>, and
  adding it to the mean, or subtracting it, cannot pass the mean: the rounding is
  monotone and the mean is a double.
\<close>

lemma foldl_PosInf:
  assumes "\<forall>d \<in> set ds. d = PosInf"
  shows "foldl d_add PosInf ds = PosInf"
  using assms by (induction ds) simp_all

lemma stddev_infinite:
  assumes "w \<noteq> []" and "mean w = PosInf \<or> mean w = NegInf"
  shows "stddev w = PosInf"
proof -
  from assms(1) obtain x xs where w: "w = x # xs"
    by (cases w) auto
  have sq: "d_pow2 (d_sub (Fin p) (mean w)) = PosInf" for p
    using assms(2) by (auto simp: d_pow2_def d_sub_def)
  have "sum_d (map (\<lambda>p. d_pow2 (d_sub (Fin p) (mean w))) w) = sum_d (map (\<lambda>p. PosInf) w)"
    by (simp only: sq)
  also have "\<dots> = PosInf"
    unfolding w by (simp add: foldl_PosInf)
  finally have "sum_d (map (\<lambda>p. d_pow2 (d_sub (Fin p) (mean w))) w) = PosInf" .
  moreover have "0 < real (length w)"
    using assms(1) by simp
  ultimately show ?thesis
    by (simp add: stddev_def)
qed

lemma nn_square: "d \<noteq> NotANumber \<Longrightarrow> nn (d_pow2 d)"
  by (cases d) (simp_all add: d_pow2_def fl_nn)

lemma nn_sum:
  assumes "\<forall>d \<in> set ds. nn d"
  shows "nn (sum_d ds)"
proof (cases ds)
  case Nil
  then show ?thesis
    by (simp add: MAX_VALUE_def)
next
  case (Cons x xs)
  with assms show ?thesis
    by (simp add: nn_foldl)
qed

lemma nn_sqrt:
  assumes "nn v"
  shows "(\<exists>s. d_sqrt v = Fin s \<and> 0 \<le> s) \<or> d_sqrt v = PosInf"
  using assms by (cases v) (simp_all add: rnd_nonneg)

lemma nn_twice:
  assumes "(\<exists>s. d = Fin s \<and> 0 \<le> s) \<or> d = PosInf"
  shows "nn (d_mul (Fin 2) d)"
  using assms by (auto simp: fl_nn)

lemma nn_spread:
  assumes "w \<noteq> []" and "mean w = Fin x"
  shows "nn (d_mul (Fin 2) (stddev w))"
proof -
  have "\<forall>d \<in> set (map (\<lambda>p. d_pow2 (d_sub (Fin p) (mean w))) w). nn d"
    by (auto simp: assms(2) intro!: nn_square)
  then have "nn (sum_d (map (\<lambda>p. d_pow2 (d_sub (Fin p) (mean w))) w))"
    by (rule nn_sum)
  moreover have "0 < length w"
    using assms(1) by simp
  ultimately have "nn (d_div (sum_d (map (\<lambda>p. d_pow2 (d_sub (Fin p) (mean w))) w))
      (Fin (real (length w))))"
    by (rule average_finite(1))
  then show ?thesis
    unfolding stddev_def by (intro nn_twice nn_sqrt)
qed

lemma above:
  assumes "exact (Fin x)" and "nn e"
  shows "d_ge (d_add (Fin x) e) (Fin x)"
proof (cases e)
  case (Fin y)
  with assms have y: "0 \<le> y" and x: "rnd x = x" "\<bar>x\<bar> < OVERFLOW"
    by simp_all
  show ?thesis
  proof (cases "x + y < OVERFLOW")
    case True
    with y x have "fl (x + y) = Fin (rnd (x + y))"
      by (intro fl_Fin) simp
    moreover have "rnd x \<le> rnd (x + y)"
      using y by (intro rnd_mono) simp
    ultimately show ?thesis
      using Fin x(1) by (auto simp: d_ge_def)
  next
    case False
    then show ?thesis
      using Fin by (simp add: fl_def d_ge_def)
  qed
qed (use assms in \<open>simp_all add: d_ge_def\<close>)

lemma below:
  assumes "exact (Fin x)" and "nn e"
  shows "d_ge (Fin x) (d_sub (Fin x) e)"
proof (cases e)
  case (Fin y)
  with assms have y: "0 \<le> y" and x: "rnd x = x" "\<bar>x\<bar> < OVERFLOW"
    by simp_all
  show ?thesis
  proof (cases "- OVERFLOW < x - y")
    case True
    with y x have "fl (x - y) = Fin (rnd (x - y))"
      by (intro fl_Fin) simp
    moreover have "rnd (x - y) \<le> rnd x"
      using y by (intro rnd_mono) simp
    ultimately show ?thesis
      using Fin x(1) by (auto simp: d_ge_def d_sub_def)
  next
    case False
    then have "fl (x - y) = NegInf"
      using OVERFLOW_pos by (simp add: fl_def)
    then show ?thesis
      using Fin by (simp add: d_ge_def d_sub_def)
  qed
qed (use assms in \<open>simp_all add: d_ge_def d_sub_def\<close>)

lemma mean_exact: "exact (mean w)"
  by (simp add: mean_def)

lemma band_order:
  assumes "w \<noteq> []"
  shows "d_ge (d_add (mean w) (d_mul (Fin 2) (stddev w))) (mean w)
         \<and> d_ge (mean w) (d_sub (mean w) (d_mul (Fin 2) (stddev w)))
     \<longleftrightarrow> (\<exists>x. mean w = Fin x)"
proof (cases "mean w")
  case (Fin x)
  with mean_exact [of w] have "exact (Fin x)"
    by simp
  with nn_spread [OF assms Fin] Fin show ?thesis
    by (simp add: above below)
next
  case PosInf
  with stddev_infinite [OF assms] show ?thesis
    by (simp add: d_ge_def d_sub_def)
next
  case NegInf
  with stddev_infinite [OF assms] show ?thesis
    by (simp add: d_ge_def d_sub_def)
next
  case NotANumber
  then show ?thesis
    by (simp add: d_ge_def)
qed

lemma mean_bounded:
  assumes "\<forall>p \<in> set w. 0 \<le> p \<and> p \<le> 2 ^ 1000" and "length w = 20"
  shows "\<exists>x. mean w = Fin x"
proof -
  from assms(2) obtain x xs where w: "w = x # xs" and xs: "length xs = 19"
    by (cases w) auto
  have "\<exists>s. foldl d_add (Fin x) (map Fin xs) = Fin s \<and> 0 \<le> s \<and> s \<le> 2 ^ (1000 + length (map Fin xs))"
    using assms(1) by (intro sum_bounded) (auto simp: w xs)
  then obtain s where s: "sum_d (map Fin w) = Fin s" "0 \<le> s" "s \<le> 2 ^ 1019"
    by (auto simp: w xs)
  have "s / 20 \<le> s"
    using s(2) by simp
  also have "s < OVERFLOW"
    using s(3) power2_below_OVERFLOW [of 1019] by simp
  finally have "\<bar>s / 20\<bar> < OVERFLOW"
    using s(2) by simp
  then show ?thesis
    by (simp add: mean_def s(1) assms(2) fl_Fin)
qed

text \<open>
  Claim C6, as stated for every series of at least 20 points with non-constant prices,
  fails where the sum of the window overflows. On nineteen prices \<open>2\<^sup>1\<^sup>0\<^sup>2\<^sup>3\<close> followed by 0
  the sum is \<^verbatim>\<open>Infinity\<close> after one addition; the middle and the upper band are
  \<^verbatim>\<open>Infinity\<close>, the lower band is \<^verbatim>\<open>Infinity - Infinity\<close>, that is \<^verbatim>\<open>NaN\<close>, and
  \<^verbatim>\<open>middle >= lower\<close> is false.
\<close>

theorem calculateBollinger_overflow_counterexample:
  "calculateBollinger [2 ^ 1023, 2 ^ 1023, 2 ^ 1023, 2 ^ 1023, 2 ^ 1023, 2 ^ 1023, 2 ^ 1023,
      2 ^ 1023, 2 ^ 1023, 2 ^ 1023, 2 ^ 1023, 2 ^ 1023, 2 ^ 1023, 2 ^ 1023, 2 ^ 1023, 2 ^ 1023,
      2 ^ 1023, 2 ^ 1023, 2 ^ 1023, 0] 20
   = Some \<lparr>upper = Some PosInf, middle = Some PosInf, lower = Some NotANumber\<rparr>
   \<and> \<not> d_ge PosInf NotANumber"
  unfolding huge_def [symmetric]
  by (simp add: calculateBollinger_def Let_def d_sub_def d_pow2_def d_ge_def)

text \<open>
  Claim C6, amended. For every series of at least 20 finite prices,
  \<^verbatim>\<open>calculateBollinger\<close> returns the bands whose middle is the simple mean of the last 20
  points and whose upper and lower are the mean plus and minus twice their population
  standard deviation, all evaluated in the arithmetic of the doubles. These bands
  satisfy upper \<open>\<ge>\<close> middle \<open>\<ge>\<close> lower exactly when the middle band is a number, that is
  when the sum of the window does not overflow (constant prices or not), and so they do
  for every series of prices between 0 and \<open>2\<^sup>1\<^sup>0\<^sup>0\<^sup>0\<close>. For every series shorter than 20
  points all three bands are \<open>prices[0]\<close>, the first price of the series when it has
  one.
\<close>

theorem calculateBollinger_bands:
  "(20 \<le> length prices \<longrightarrow>
      calculateBollinger prices 20 =
        Some \<lparr>upper = Some (d_add (mean (last_points 20 prices))
                               (d_mul (Fin 2) (stddev (last_points 20 prices)))),
              middle = Some (mean (last_points 20 prices)),
              lower = Some (d_sub (mean (last_points 20 prices))
                               (d_mul (Fin 2) (stddev (last_points 20 prices))))\<rparr>)
   \<and> (20 \<le> length prices \<longrightarrow>
        (\<exists>b. calculateBollinger prices 20 = Some b
           \<and> (ordered b \<longleftrightarrow> (\<exists>x. middle b = Some (Fin x)))))
   \<and> (20 \<le> length prices \<and> (\<forall>p \<in> set prices. 0 \<le> p \<and> p \<le> 2 ^ 1000) \<longrightarrow>
        (\<exists>b. calculateBollinger prices 20 = Some b \<and> ordered b))
   \<and> (length prices < 20 \<longrightarrow>
        calculateBollinger prices 20 =
          Some \<lparr>upper = d_index (map Fin prices) 0,
                middle = d_index (map Fin prices) 0,
                lower = d_index (map Fin prices) 0\<rparr>)
   \<and> (prices \<noteq> [] \<longrightarrow> d_index (map Fin prices) 0 = Some (Fin (hd prices)))"
proof (intro conjI impI)
  assume long: "20 \<le> length prices"
  define w where "w = last_points 20 prices"
  have w: "length w = 20" "w \<noteq> []"
    using long by (auto simp: w_def last_points_def)
  show window: "calculateBollinger prices 20 =
        Some \<lparr>upper = Some (d_add (mean (last_points 20 prices))
                               (d_mul (Fin 2) (stddev (last_points 20 prices)))),
              middle = Some (mean (last_points 20 prices)),
              lower = Some (d_sub (mean (last_points 20 prices))
                               (d_mul (Fin 2) (stddev (last_points 20 prices))))\<rparr>"
    using long by (intro calculateBollinger_window) simp_all
  show "\<exists>b. calculateBollinger prices 20 = Some b
           \<and> (ordered b \<longleftrightarrow> (\<exists>x. middle b = Some (Fin x)))"
    using band_order [OF w(2)] by (simp add: window ordered_def w_def)
next
  assume "20 \<le> length prices \<and> (\<forall>p \<in> set prices. 0 \<le> p \<and> p \<le> 2 ^ 1000)"
  then have long: "20 \<le> length prices" and range: "\<forall>p \<in> set prices. 0 \<le> p \<and> p \<le> 2 ^ 1000"
    by simp_all
  define w where "w = last_points 20 prices"
  have w: "length w = 20" "w \<noteq> []"
    using long by (auto simp: w_def last_points_def)
  have "\<forall>p \<in> set w. 0 \<le> p \<and> p \<le> 2 ^ 1000"
    using range in_set_dropD [of _ "length prices - 20" prices]
    unfolding w_def last_points_def by blast
  then have "\<exists>x. mean w = Fin x"
    using w(1) by (rule mean_bounded)
  with band_order [OF w(2)] calculateBollinger_window [of 20 prices] long
  show "\<exists>b. calculateBollinger prices 20 = Some b \<and> ordered b"
    by (simp add: ordered_def w_def)
next
  assume "length prices < 20"
  then show "calculateBollinger prices 20 =
          Some \<lparr>upper = d_index (map Fin prices) 0,
                middle = d_index (map Fin prices) 0,
                lower = d_index (map Fin prices) 0\<rparr>"
    by (rule calculateBollinger_short)
next
  assume "prices \<noteq> []"
  then show "d_index (map Fin prices) 0 = Some (Fin (hd prices))"
    by (rule first_price)
qed

text \<open>
  Twenty-one points whose last twenty alternate between 1 and 3 (mean 2, deviation 1),
  and a series of two points.
\<close>

theorem calculateBollinger_bands_witness:
  "calculateBollinger [9, 1, 3, 1, 3, 1, 3, 1, 3, 1, 3, 1, 3, 1, 3, 1, 3, 1, 3, 1, 3] 20
     = Some \<lparr>upper = Some (Fin 4), middle = Some (Fin 2), lower = Some (Fin 0)\<rparr>
   \<and> (\<exists>b. calculateBollinger [9, 1, 3, 1, 3, 1, 3, 1, 3, 1, 3, 1, 3, 1, 3, 1, 3, 1, 3, 1, 3] 20
            = Some b \<and> ordered b)
   \<and> calculateBollinger [5, 7] 20
       = Some \<lparr>upper = Some (Fin 5), middle = Some (Fin 5), lower = Some (Fin 5)\<rparr>"
proof (intro conjI)
  have "calculateBollinger [9, 1, 3, 1, 3, 1, 3, 1, 3, 1, 3, 1, 3, 1, 3, 1, 3, 1, 3, 1, 3] 20 =
      Some \<lparr>upper = Some (d_add (mean (last_points 20 [9, 1, 3, 1, 3, 1, 3, 1, 3, 1, 3, 1, 3, 1, 3, 1, 3, 1, 3, 1, 3]))
                             (d_mul (Fin 2) (stddev (last_points 20 [9, 1, 3, 1, 3, 1, 3, 1, 3, 1, 3, 1, 3, 1, 3, 1, 3, 1, 3, 1, 3])))),
            middle = Some (mean (last_points 20 [9, 1, 3, 1, 3, 1, 3, 1, 3, 1, 3, 1, 3, 1, 3, 1, 3, 1, 3, 1, 3])),
            lower = Some (d_sub (mean (last_points 20 [9, 1, 3, 1, 3, 1, 3, 1, 3, 1, 3, 1, 3, 1, 3, 1, 3, 1, 3, 1, 3]))
                             (d_mul (Fin 2) (stddev (last_points 20 [9, 1, 3, 1, 3, 1, 3, 1, 3, 1, 3, 1, 3, 1, 3, 1, 3, 1, 3, 1, 3]))))\<rparr>"
    by (rule calculateBollinger_bands [THEN conjunct1, THEN mp]) simp
  moreover have m: "mean [1, 3, 1, 3, 1, 3, 1, 3, 1, 3, 1, 3, 1, 3, 1, 3, 1, 3, 1, 3] = Fin 2"
    by (simp add: mean_def)
  moreover have "stddev [1, 3, 1, 3, 1, 3, 1, 3, 1, 3, 1, 3, 1, 3, 1, 3, 1, 3, 1, 3] = Fin 1"
    by (simp add: stddev_def m d_sub_def d_pow2_def)
  ultimately show "calculateBollinger [9, 1, 3, 1, 3, 1, 3, 1, 3, 1, 3, 1, 3, 1, 3, 1, 3, 1, 3, 1, 3] 20
     = Some \<lparr>upper = Some (Fin 4), middle = Some (Fin 2), lower = Some (Fin 0)\<rparr>"
    by (simp add: last_points_def d_sub_def)
  show "\<exists>b. calculateBollinger [9, 1, 3, 1, 3, 1, 3, 1, 3, 1, 3, 1, 3, 1, 3, 1, 3, 1, 3, 1, 3] 20
            = Some b \<and> ordered b"
    by (rule calculateBollinger_bands [THEN conjunct2, THEN conjunct2, THEN conjunct1, THEN mp])
      simp
  show "calculateBollinger [5, 7] 20
       = Some \<lparr>upper = Some (Fin 5), middle = Some (Fin 5), lower = Some (Fin 5)\<rparr>"
    using calculateBollinger_bands [of "[5, 7]"] by simp
qed

section \<open>Properties of the decision fusion\<close>




lemma decide_confidence: "snd (decide r) = 50 \<or> snd (decide r) = 75"
  by (simp add: decide_def)

lemma localSignal_confidence:
  assumes "localSignal rt c ind = Inr sg"
  shows "confidence sg = snd (decide (rsi ind))"
  using assms by (auto simp: localSignal_def split: prod.splits sum.splits)

lemma localSignal_returns:
  assumes "rsi ind \<noteq> Undefined"
  shows "\<exists>sg. localSignal rt c ind = Inr sg"
  using assms by (cases "rsi ind") (auto simp: localSignal_def split: prod.splits)

lemma localSignal_of_indicators:
  "\<exists>sg. localSignal rt c (calculateIndicators prices) = Inr sg"
  by (rule localSignal_returns) (simp add: calculateIndicators_def calculateRSI_defined)

lemma local_quiet:
  assumes "localSignal rt c ind = Inr sg"
  shows "confident rt' (Local sg) = Inr False"
  using localSignal_confidence [OF assms] decide_confidence [of "rsi ind"] by auto

text \<open>Neither the fetch nor the advisory call plays the alert.\<close>

lemma fetchAPI_alerts: "alerts (snd (fetchAPI rt response name s)) = alerts s"
  by (simp add: fetchAPI_def fallback_def toast_def split: sum.splits)

lemma callAI_alerts: "alerts (snd (callAI reply s)) = alerts s"
  by (simp add: callAI_def toast_def split: ai_reply.splits)

lemma callAI_advice:
  "fst (callAI reply s) = Some obj \<longleftrightarrow> reply = Reply obj"
  by (simp add: callAI_def split: ai_reply.splits)

lemma publish_alerts:
  "alerts (publish rt rendered c sg s) =
     (if rendered \<and> confident rt sg = Inr True then alerts s + 1 else alerts s)"
  by (auto simp: publish_def warn_def Let_def split: sum.splits)

lemma select_signal_sources:
  assumes "select_signal rt c ind advice = Inr sg"
  shows "(\<exists>obj. advice = Some obj \<and> sg = Advisory obj)
       \<or> (\<exists>l. advice = None \<and> localSignal rt c ind = Inr l \<and> sg = Local l)"
  using assms by (auto simp: select_signal_def split: option.splits sum.splits)

lemma generateSignal_alerts:
  assumes "alerts (generateSignal rt loose response reply rendered coin s) \<noteq> alerts s"
  shows "\<exists>obj. reply = Reply obj \<and> confident rt (Advisory obj) = Inr True
           \<and> alerts (generateSignal rt loose response reply rendered coin s) = alerts s + 1"
proof -
  define s' where "s' = generateSignal rt loose response reply rendered coin s"
  from assms obtain c where coin: "coin = Some c"
    by (cases coin) (auto simp: generateSignal_def)
  obtain r s1 where fetch: "fetchAPI rt response (''chart_'' @ coin_id c) s = (r, s1)"
    by (cases "fetchAPI rt response (''chart_'' @ coin_id c) s") auto
  then have a1: "alerts s1 = alerts s"
    using fetchAPI_alerts [of rt response "''chart_'' @ coin_id c" s] by simp
  obtain advice s2 where ai: "callAI reply s1 = (advice, s2)"
    by (cases "callAI reply s1") auto
  then have a2: "alerts s2 = alerts s"
    using callAI_alerts [of reply s1] a1 by simp
  from assms coin fetch ai a1 a2 obtain ind sg
    where sel: "select_signal rt c ind advice = Inr sg" and s': "s' = publish rt rendered c sg s2"
    by (auto simp: s'_def generateSignal_def warn_def split: sum.splits option.splits)
  from s' assms a2 have loud: "confident rt sg = Inr True" and inc: "alerts s' = alerts s + 1"
    by (auto simp: s'_def [symmetric] publish_alerts split: if_splits)
  from select_signal_sources [OF sel] loud local_quiet obtain obj
    where "advice = Some obj" and "sg = Advisory obj"
    by fastforce
  with ai loud inc show ?thesis
    using callAI_advice [of reply s1 obj] by (auto simp: s'_def)
qed

text \<open>
  Claim C10. \<^verbatim>\<open>localSignal\<close> returns a signal for the indicators of every price series
  (and for every indicator record whose RSI is not \<^verbatim>\<open>undefined\<close>), and the confidence of
  a signal it returns is 50 or 75, so \<^verbatim>\<open>signal.confidence > 80\<close> is false for it. Hence
  whenever a run of \<^verbatim>\<open>generateSignal\<close> plays the alert, \<^verbatim>\<open>callAI\<close> returned an object
  and that advisory's confidence exceeds 80.
\<close>

theorem local_signal_never_alerts:
  "(localSignal rt c ind = Inr sg \<longrightarrow>
      (confidence sg = 50 \<or> confidence sg = 75) \<and> confident rt (Local sg) = Inr False)
   \<and> (rsi ind \<noteq> Undefined \<longrightarrow> (\<exists>l. localSignal rt c ind = Inr l))
   \<and> (\<exists>l. localSignal rt c (calculateIndicators prices) = Inr l)
   \<and> (alerts (generateSignal rt loose response reply rendered coin s) \<noteq> alerts s \<longrightarrow>
        (\<exists>obj. reply = Reply obj \<and> confident rt (Advisory obj) = Inr True
           \<and> alerts (generateSignal rt loose response reply rendered coin s) = alerts s + 1))"
  using localSignal_confidence [of rt c ind sg] decide_confidence [of "rsi ind"]
    local_quiet [of rt c ind sg rt] localSignal_returns [of ind rt c]
    localSignal_of_indicators [of rt c prices]
    generateSignal_alerts [of rt loose response reply rendered coin s]
  by auto

text \<open>
  A run on the sample chart: with an advisory of confidence 90 the alert plays once,
  with no advisory the local signal has confidence 50 and the alert does not play.
\<close>

theorem local_signal_never_alerts_witness:
  "(\<exists>l. localSignal (runtime_at True 0) bitcoin (calculateIndicators [100, 101]) = Inr l \<and> confidence l = 50)
   \<and> alerts (generateSignal (runtime_at True 0) no_indicators (Response 200 (Some sample_chart))
            (Reply [(''confidence'', JNum 90)]) True (Some bitcoin) (app_with Map.empty)) = 1
   \<and> alerts (generateSignal (runtime_at True 0) no_indicators (Response 200 (Some sample_chart))
            Unavailable True (Some bitcoin) (app_with Map.empty)) = 0"
  using local_signal_never_alerts [where rt = "runtime_at True 0" and c = bitcoin
      and ind = "calculateIndicators [100, 101]"
      and sg = "projr (localSignal (runtime_at True 0) bitcoin (calculateIndicators [100, 101]))"
      and loose = no_indicators
      and response = "Response 200 (Some sample_chart)" and reply = "Reply [(''confidence'', JNum 90)]"
      and rendered = True and coin = "Some bitcoin" and s = "app_with Map.empty"]
  by (simp add: generateSignal_def fetchAPI_def sample_chart_def chart_prices_def callAI_def
      indicators_of_def select_signal_def publish_def localSignal_def decide_def
      calculateIndicators_def calculateRSI_def runtime_at_def app_with_def bitcoin_def warn_def
      Let_def)

end
